theory Spec2Isabelle
  imports Complex_Main "HOL-Library.Product_Lexorder"
begin

section \<open>Data model\<close>

text \<open>
  The retrieval core of the repository: \<^verbatim>\<open>services/simple_vector_store.py\<close>,
  \<^verbatim>\<open>services/simple_embeddings.py\<close> and the chunker of
  \<^verbatim>\<open>services/document_processor.py\<close>.

  Conventions of the embedding.
  \<^item> In the vector store a one-dimensional \<^verbatim>\<open>np.ndarray\<close> is a list of floating point
    values, which may be infinite or NaN, and the float32 arithmetic of numpy is a
    parameter of every function that computes with it.
  \<^item> A Python \<^verbatim>\<open>int\<close> is an \<open>int\<close>; a Python \<^verbatim>\<open>str\<close> is a \<open>string\<close> whose characters
    stand for the code points 0 to 255.
  \<^item> A raised exception is the \<open>Inl\<close> of a sum type; where the object is mutated before
    or after the raise, the state after the call is returned next to the outcome.
\<close>

datatype meta_value = MStr string | MInt int

record Document =
  content :: string
  source :: string
  chunk_id :: string
  metadata :: "(string \<times> meta_value) list"

datatype error =
    ValueError string
  | KeyError string
  | DivideByZero

section \<open>Floating point values and numpy's arithmetic\<close>

text \<open>
  A floating point value of numpy: a finite number, an infinity, or NaN.
\<close>

datatype fp = Fin real | PInf | NInf | NaN

type_synonym fvec = "fp list"

text \<open>
  An \<^verbatim>\<open>np.ndarray\<close> handed to the store: a one-dimensional array of floating point
  numbers, or an array of another kind (strings, objects) on which
  \<^verbatim>\<open>astype(np.float32)\<close> raises \<^verbatim>\<open>ValueError\<close>.
\<close>

datatype ndarray = FloatArray fvec | OtherArray

text \<open>
  The code of numpy is not part of the repository, and what its float32 arithmetic
  returns (each rounding, the order of the summation in \<^verbatim>\<open>np.dot\<close> and
  \<^verbatim>\<open>np.linalg.norm\<close>, overflow to infinity, NaN) is not fixed by the source. The
  arithmetic is a parameter of the model:
  \<^item> \<open>cast_op\<close>: one element under \<^verbatim>\<open>astype(np.float32)\<close>;
  \<^item> \<open>norm_op\<close>: \<^verbatim>\<open>np.linalg.norm\<close> of an array;
  \<^item> \<open>quot_op\<close>: one element divided by a scalar;
  \<^item> \<open>dot_op\<close>: \<^verbatim>\<open>np.dot\<close> of two arrays of one length;
  \<^item> \<open>nan_sort_op\<close>: the list that \<^verbatim>\<open>list.sort\<close> leaves when a key is NaN (every
    comparison with NaN is false, so the keys are not ordered and the result depends on
    the steps of the sorting algorithm).
  The definitions below add what holds for every such arithmetic: the shapes of the
  results, the exception of \<^verbatim>\<open>np.dot\<close> on arrays of different lengths, the norm 0 of an
  array of zeros, and the product 0 of an array of zeros with an array of finite numbers.
\<close>

record float_ops =
  cast_op :: "fp \<Rightarrow> fp"
  norm_op :: "fvec \<Rightarrow> fp"
  quot_op :: "fp \<Rightarrow> fp \<Rightarrow> fp"
  dot_op :: "fvec \<Rightarrow> fvec \<Rightarrow> fp"
  nan_sort_op :: "(fp \<times> nat) list \<Rightarrow> (fp \<times> nat) list"

text \<open>The comparison \<^verbatim>\<open>x > 0\<close>: false for NaN.\<close>

fun gt_zero :: "fp \<Rightarrow> bool" where
  "gt_zero (Fin r) = (0 < r)"
| "gt_zero PInf = True"
| "gt_zero NInf = False"
| "gt_zero NaN = False"

fun is_fin :: "fp \<Rightarrow> bool" where
  "is_fin (Fin r) = True"
| "is_fin PInf = False"
| "is_fin NInf = False"
| "is_fin NaN = False"

text \<open>The comparison \<^verbatim>\<open>x < y\<close> of two floating point values: false when either is NaN.\<close>

fun lt_fp :: "fp \<Rightarrow> fp \<Rightarrow> bool" where
  "lt_fp NaN y = False"
| "lt_fp x NaN = False"
| "lt_fp (Fin a) (Fin b) = (a < b)"
| "lt_fp (Fin a) PInf = True"
| "lt_fp (Fin a) NInf = False"
| "lt_fp PInf y = False"
| "lt_fp NInf NInf = False"
| "lt_fp NInf y = True"

text \<open>\<^verbatim>\<open>a.astype(np.float32)\<close>.\<close>

definition astype_float32 :: "float_ops \<Rightarrow> ndarray \<Rightarrow> error + fvec" where
  "astype_float32 ops a =
     (case a of
        FloatArray v \<Rightarrow> Inr (map (cast_op ops) v)
      | OtherArray \<Rightarrow> Inl (ValueError ''could not convert string to float''))"

text \<open>\<^verbatim>\<open>np.linalg.norm(v)\<close>; the norm of an array of zeros (and of the empty array) is 0.\<close>

definition linalg_norm32 :: "float_ops \<Rightarrow> fvec \<Rightarrow> fp" where
  "linalg_norm32 ops v = (if \<forall>x\<in>set v. x = Fin 0 then Fin 0 else norm_op ops v)"

text \<open>
  \<^verbatim>\<open>v / c\<close>, element by element. numpy gives \<^verbatim>\<open>inf\<close> or \<^verbatim>\<open>nan\<close> and a warning for a
  division by zero; the model makes it the outcome \<open>DivideByZero\<close>, so that a search
  that divides by a zero norm is visible.
\<close>

definition np_divide32 :: "float_ops \<Rightarrow> fvec \<Rightarrow> fp \<Rightarrow> error + fvec" where
  "np_divide32 ops v c =
     (if c = Fin 0 then Inl DivideByZero else Inr (map (\<lambda>x. quot_op ops x c) v))"

text \<open>The value of \<^verbatim>\<open>np.dot\<close> on two arrays of one length: 0 when one array holds only
  zeros and the other only finite numbers.\<close>

definition dot32 :: "float_ops \<Rightarrow> fvec \<Rightarrow> fvec \<Rightarrow> fp" where
  "dot32 ops a b =
     (if ((\<forall>x\<in>set a. x = Fin 0) \<and> (\<forall>y\<in>set b. is_fin y))
         \<or> ((\<forall>y\<in>set b. y = Fin 0) \<and> (\<forall>x\<in>set a. is_fin x))
      then Fin 0 else dot_op ops a b)"

text \<open>\<^verbatim>\<open>np.dot\<close> of two one-dimensional arrays raises \<^verbatim>\<open>ValueError\<close> unless they have the
  same length.\<close>

definition np_dot32 :: "float_ops \<Rightarrow> fvec \<Rightarrow> fvec \<Rightarrow> error + fp" where
  "np_dot32 ops a b =
     (if length a \<noteq> length b then Inl (ValueError ''shapes not aligned'')
      else Inr (dot32 ops a b))"

section \<open>The vector store: state, loading, replacing\<close>

record store =
  embedding_dim :: nat
  documents :: "Document list"
  embeddings :: "fvec list"

text \<open>
  The persisted file \<^verbatim>\<open>data/processed_documents.json\<close> as the loader sees it.
  \<open>NoFile\<close>: \<^verbatim>\<open>os.path.exists\<close> is false. \<open>Unreadable\<close>: \<^verbatim>\<open>open\<close> or \<^verbatim>\<open>json.load\<close> raises.
  \<open>Snapshot\<close>: a parsed object; each of its two keys may be absent (\<^verbatim>\<open>data.get(key, [])\<close>),
  each chunk record may lack any of the four keys the loader reads (\<^verbatim>\<open>doc_data['content']\<close>
  raises \<^verbatim>\<open>KeyError\<close>), and each embedding entry may fail to convert
  (\<^verbatim>\<open>np.array(emb, dtype=np.float32)\<close> raises), written \<open>None\<close>.
\<close>

record doc_data =
  dd_content :: "string option"
  dd_source :: "string option"
  dd_chunk_id :: "string option"
  dd_metadata :: "(string \<times> meta_value) list option"

record snapshot =
  snap_documents :: "doc_data list option"
  snap_embeddings :: "fvec option list option"

datatype file_state = NoFile | Unreadable | Snapshot snapshot

definition get_or_empty :: "'a list option \<Rightarrow> 'a list" where
  "get_or_empty v = (case v of None \<Rightarrow> [] | Some xs \<Rightarrow> xs)"

text \<open>\<^verbatim>\<open>Document(content=doc_data['content'], source=..., chunk_id=..., metadata=...)\<close>:
  the keys are read in this order and the first missing one raises.\<close>

definition make_document :: "doc_data \<Rightarrow> error + Document" where
  "make_document d =
     (case dd_content d of None \<Rightarrow> Inl (KeyError ''content'') | Some c \<Rightarrow>
      (case dd_source d of None \<Rightarrow> Inl (KeyError ''source'') | Some s \<Rightarrow>
       (case dd_chunk_id d of None \<Rightarrow> Inl (KeyError ''chunk_id'') | Some i \<Rightarrow>
        (case dd_metadata d of None \<Rightarrow> Inl (KeyError ''metadata'') | Some m \<Rightarrow>
         Inr \<lparr>content = c, source = s, chunk_id = i, metadata = m\<rparr>))))"

text \<open>The loop \<^verbatim>\<open>for doc_data in data.get('documents', []): self.documents.append(doc)\<close>,
  stopping at the first exception.\<close>

fun reconstruct_documents :: "doc_data list \<Rightarrow> error + Document list" where
  "reconstruct_documents [] = Inr []"
| "reconstruct_documents (d # ds) =
     (case make_document d of
        Inl e \<Rightarrow> Inl e
      | Inr doc \<Rightarrow>
          (case reconstruct_documents ds of
             Inl e \<Rightarrow> Inl e
           | Inr docs \<Rightarrow> Inr (doc # docs)))"

text \<open>The comprehension \<^verbatim>\<open>[np.array(emb, dtype=np.float32) for emb in embeddings_data]\<close>.\<close>

fun convert_embeddings :: "float_ops \<Rightarrow> fvec option list \<Rightarrow> error + fvec list" where
  "convert_embeddings ops [] = Inr []"
| "convert_embeddings ops (e # es) =
     (case e of
        None \<Rightarrow> Inl (ValueError ''could not convert to float'')
      | Some v \<Rightarrow>
          (case convert_embeddings ops es of
             Inl err \<Rightarrow> Inl err
           | Inr vs \<Rightarrow> Inr (map (cast_op ops) v # vs)))"

definition cleared :: "store \<Rightarrow> store" where
  "cleared s = s\<lparr>documents := [], embeddings := []\<rparr>"

text \<open>
  \<^verbatim>\<open>SimpleVectorStore._load_existing_data\<close>. Every exception of the \<^verbatim>\<open>try\<close> block ends in
  the handler, which empties both sequences; so does the \<^verbatim>\<open>else\<close> branch of the
  consistency test \<^verbatim>\<open>embeddings_data and len(embeddings_data) == len(self.documents)\<close>.
\<close>

definition load_existing_data :: "float_ops \<Rightarrow> store \<Rightarrow> file_state \<Rightarrow> store" where
  "load_existing_data ops s f =
     (case f of
        NoFile \<Rightarrow> s
      | Unreadable \<Rightarrow> cleared s
      | Snapshot data \<Rightarrow>
          (case reconstruct_documents (get_or_empty (snap_documents data)) of
             Inl e \<Rightarrow> cleared s
           | Inr docs \<Rightarrow>
               (let embeddings_data = get_or_empty (snap_embeddings data) in
                if embeddings_data \<noteq> [] \<and> length embeddings_data = length docs
                then (case convert_embeddings ops embeddings_data of
                        Inl e \<Rightarrow> cleared s
                      | Inr embs \<Rightarrow> s\<lparr>documents := docs, embeddings := embs\<rparr>)
                else cleared s)))"

text \<open>\<^verbatim>\<open>SimpleVectorStore.__init__\<close>: both sequences empty, then the load.\<close>

definition store_init :: "float_ops \<Rightarrow> nat \<Rightarrow> file_state \<Rightarrow> store" where
  "store_init ops n f =
     load_existing_data ops \<lparr>embedding_dim = n, documents = [], embeddings = []\<rparr> f"

text \<open>The comprehension \<^verbatim>\<open>[emb.astype(np.float32) for emb in embeddings]\<close> of
  \<^verbatim>\<open>add_documents\<close>: the first array that cannot be converted raises.\<close>

fun astype_all :: "float_ops \<Rightarrow> ndarray list \<Rightarrow> error + fvec list" where
  "astype_all ops [] = Inr []"
| "astype_all ops (a # as) =
     (case astype_float32 ops a of
        Inl e \<Rightarrow> Inl e
      | Inr v \<Rightarrow>
          (case astype_all ops as of
             Inl e \<Rightarrow> Inl e
           | Inr vs \<Rightarrow> Inr (v # vs)))"

text \<open>
  \<^verbatim>\<open>SimpleVectorStore.add_documents\<close>. The result is the outcome of the call together with
  the store after it. The length test raises before anything is assigned. Inside the
  \<^verbatim>\<open>try\<close> block line 71 assigns \<^verbatim>\<open>self.documents\<close> first; when the conversion of line 72
  raises, \<^verbatim>\<open>self.embeddings\<close> has not been assigned and the handler logs and raises again,
  so the new documents stay next to the old embeddings. \<^verbatim>\<open>_save_data\<close> writes the file
  only and swallows its own exceptions, so it changes neither the outcome nor the store.
\<close>

definition add_documents ::
  "float_ops \<Rightarrow> store \<Rightarrow> Document list \<Rightarrow> ndarray list \<Rightarrow> (error + unit) \<times> store" where
  "add_documents ops s docs embs =
     (if length docs \<noteq> length embs
      then (Inl (ValueError ''Number of documents must match number of embeddings''), s)
      else (case astype_all ops embs of
              Inl e \<Rightarrow> (Inl e, s\<lparr>documents := docs\<rparr>)
            | Inr vs \<Rightarrow> (Inr (), s\<lparr>documents := docs, embeddings := vs\<rparr>)))"

text \<open>What \<^verbatim>\<open>_save_data\<close> writes when the write succeeds.\<close>

definition document_to_data :: "Document \<Rightarrow> doc_data" where
  "document_to_data d =
     \<lparr>dd_content = Some (content d), dd_source = Some (source d),
      dd_chunk_id = Some (chunk_id d), dd_metadata = Some (metadata d)\<rparr>"

definition save_data :: "store \<Rightarrow> file_state" where
  "save_data s =
     Snapshot \<lparr>snap_documents = Some (map document_to_data (documents s)),
               snap_embeddings = Some (map Some (embeddings s))\<rparr>"

section \<open>The vector store: search\<close>

text \<open>Lines 101 to 103: the query is divided by its norm only when the norm is positive.\<close>

definition normalize_query :: "float_ops \<Rightarrow> fvec \<Rightarrow> error + fvec" where
  "normalize_query ops query_embedding =
     (let query_norm = linalg_norm32 ops query_embedding in
      if gt_zero query_norm then np_divide32 ops query_embedding query_norm
      else Inr query_embedding)"

text \<open>Lines 109 to 114: the similarity of one stored vector to the (normalized) query.\<close>

definition doc_similarity :: "float_ops \<Rightarrow> fvec \<Rightarrow> fvec \<Rightarrow> error + fp" where
  "doc_similarity ops query_embedding doc_embedding =
     (let doc_norm = linalg_norm32 ops doc_embedding in
      if gt_zero doc_norm
      then (case np_divide32 ops doc_embedding doc_norm of
              Inl e \<Rightarrow> Inl e
            | Inr normalized_doc \<Rightarrow> np_dot32 ops query_embedding normalized_doc)
      else Inr (Fin 0))"

text \<open>The loop over \<^verbatim>\<open>enumerate(self.embeddings)\<close>, from index \<open>i\<close> on; the first exception
  ends it.\<close>

fun similarities_loop ::
  "float_ops \<Rightarrow> fvec \<Rightarrow> fvec list \<Rightarrow> nat \<Rightarrow> error + (fp \<times> nat) list" where
  "similarities_loop ops q [] i = Inr []"
| "similarities_loop ops q (d # ds) i =
     (case doc_similarity ops q d of
        Inl e \<Rightarrow> Inl e
      | Inr similarity \<Rightarrow>
          (case similarities_loop ops q ds (Suc i) of
             Inl e \<Rightarrow> Inl e
           | Inr rest \<Rightarrow> Inr ((similarity, i) # rest)))"

text \<open>
  \<^verbatim>\<open>xs.sort(key=f, reverse=True)\<close> on keys that are ordered. CPython keeps a reverse sort
  stable by reversing the list, sorting it with its stable ascending sort, and reversing
  the result; \<^const>\<open>sort_key\<close> is a stable ascending sort.
\<close>

definition sort_reverse :: "('a \<Rightarrow> 'k::linorder) \<Rightarrow> 'a list \<Rightarrow> 'a list" where
  "sort_reverse f xs = rev (sort_key f (rev xs))"

text \<open>The place of a floating point value among the others: on values other than NaN
  the order of the places is the comparison \<^verbatim>\<open><\<close>.\<close>

fun sort_rank :: "fp \<Rightarrow> int \<times> real" where
  "sort_rank NInf = (- 1, 0)"
| "sort_rank (Fin r) = (0, r)"
| "sort_rank PInf = (1, 0)"
| "sort_rank NaN = (2, 0)"

text \<open>Line 118, \<^verbatim>\<open>similarities.sort(key=lambda x: x[0], reverse=True)\<close>.\<close>

definition sort_similarities :: "float_ops \<Rightarrow> (fp \<times> nat) list \<Rightarrow> (fp \<times> nat) list" where
  "sort_similarities ops sims =
     (if \<exists>x\<in>set sims. fst x = NaN then nan_sort_op ops sims
      else sort_reverse (\<lambda>x. sort_rank (fst x)) sims)"

text \<open>The slice \<^verbatim>\<open>xs[:k]\<close>: a negative \<open>k\<close> counts from the end.\<close>

definition slice_to :: "'a list \<Rightarrow> int \<Rightarrow> 'a list" where
  "slice_to xs k = (if 0 \<le> k then take (nat k) xs else take (nat (int (length xs) + k)) xs)"

text \<open>Lines 121 to 124: the documents of the selected pairs, skipping an index that has no
  document.\<close>

fun collect_results :: "Document list \<Rightarrow> (fp \<times> nat) list \<Rightarrow> Document list" where
  "collect_results docs [] = []"
| "collect_results docs ((similarity, idx) # rest) =
     (if idx < length docs then docs ! idx # collect_results docs rest
      else collect_results docs rest)"

text \<open>The body of the \<^verbatim>\<open>try\<close> block of \<^verbatim>\<open>SimpleVectorStore.search\<close>.\<close>

definition search_try :: "float_ops \<Rightarrow> store \<Rightarrow> ndarray \<Rightarrow> int \<Rightarrow> error + Document list" where
  "search_try ops s query_embedding top_k =
     (case astype_float32 ops query_embedding of
        Inl e \<Rightarrow> Inl e
      | Inr q32 \<Rightarrow>
          (case normalize_query ops q32 of
             Inl e \<Rightarrow> Inl e
           | Inr q \<Rightarrow>
               (case similarities_loop ops q (embeddings s) 0 of
                  Inl e \<Rightarrow> Inl e
                | Inr similarities \<Rightarrow>
                    Inr (collect_results (documents s)
                           (slice_to (sort_similarities ops similarities) top_k)))))"

text \<open>\<^verbatim>\<open>SimpleVectorStore.search\<close>: an empty store answers at once, and the handler turns
  every exception of the body into the empty list.\<close>

definition search :: "float_ops \<Rightarrow> store \<Rightarrow> ndarray \<Rightarrow> int \<Rightarrow> error + Document list" where
  "search ops s query_embedding top_k =
     (if embeddings s = [] then Inr []
      else (case search_try ops s query_embedding top_k of
              Inl e \<Rightarrow> Inr []
            | Inr results \<Rightarrow> Inr results))"

text \<open>
  The specification's ranking signal, written from its words, with the arithmetic of the
  code: the query is cast and normalized to unit length when its norm is positive; the
  cosine similarity of a stored vector is the dot product of its unit-normalized form
  with the normalized query, and 0 when its norm is not positive.
\<close>

definition query_unit :: "float_ops \<Rightarrow> fvec \<Rightarrow> fvec" where
  "query_unit ops q =
     (let q32 = map (cast_op ops) q; n = linalg_norm32 ops q32 in
      if gt_zero n then map (\<lambda>x. quot_op ops x n) q32 else q32)"

definition cosine_similarity :: "float_ops \<Rightarrow> fvec \<Rightarrow> fvec \<Rightarrow> fp" where
  "cosine_similarity ops q d =
     (let n = linalg_norm32 ops d in
      if gt_zero n then dot32 ops (query_unit ops q) (map (\<lambda>x. quot_op ops x n) d)
      else Fin 0)"

text \<open>Candidate \<open>i\<close> ranks before candidate \<open>j\<close>: a larger similarity to the query, or the
  same similarity and an earlier insertion.\<close>

definition ranks_before :: "float_ops \<Rightarrow> fvec \<Rightarrow> fvec list \<Rightarrow> nat \<Rightarrow> nat \<Rightarrow> bool" where
  "ranks_before ops q es i j \<longleftrightarrow>
     lt_fp (cosine_similarity ops q (es ! j)) (cosine_similarity ops q (es ! i))
     \<or> (cosine_similarity ops q (es ! j) = cosine_similarity ops q (es ! i) \<and> i < j)"

text \<open>The candidate indices in the order in which the sort of the search leaves them,
  when no similarity is NaN.\<close>

definition ranked :: "float_ops \<Rightarrow> fvec \<Rightarrow> fvec list \<Rightarrow> nat list" where
  "ranked ops q es =
     map snd (sort_reverse (\<lambda>x. sort_rank (fst x))
       (map (\<lambda>j. (cosine_similarity ops q (es ! j), j)) [0..<length es]))"

section \<open>The hashing embedder\<close>

text \<open>
  The embedder computes in float64 and casts its result at the end. Its arithmetic is
  written over the reals: \<^verbatim>\<open>np.linalg.norm\<close> is the square root of the sum of squares,
  and \<^verbatim>\<open>v / c\<close> divides element by element, a division by zero being the outcome
  \<open>DivideByZero\<close> (numpy gives \<^verbatim>\<open>inf\<close> or \<^verbatim>\<open>nan\<close> and a warning).
\<close>

type_synonym vec = "real list"

definition linalg_norm :: "vec \<Rightarrow> real" where
  "linalg_norm v = sqrt (sum_list (map (\<lambda>x. x * x) v))"

definition np_divide :: "vec \<Rightarrow> real \<Rightarrow> error + vec" where
  "np_divide v c = (if c = 0 then Inl DivideByZero else Inr (map (\<lambda>x. x / c) v))"

text \<open>
  \<^verbatim>\<open>str.lower\<close> and the class \<^verbatim>\<open>\w\<close> of \<^verbatim>\<open>re\<close> on the code points 0 to 255. A word
  character is a character that is alphanumeric for Python (\<^verbatim>\<open>str.isalnum\<close>) or the
  underscore.
\<close>

definition py_lower :: "char \<Rightarrow> char" where
  "py_lower c =
     (let n = (of_char c :: nat) in
      if (65 \<le> n \<and> n \<le> 90) \<or> (192 \<le> n \<and> n \<le> 222 \<and> n \<noteq> 215)
      then char_of (n + 32) else c)"

definition is_word_char :: "char \<Rightarrow> bool" where
  "is_word_char c =
     (let n = (of_char c :: nat) in
      (48 \<le> n \<and> n \<le> 57) \<or> (65 \<le> n \<and> n \<le> 90) \<or> n = 95 \<or> (97 \<le> n \<and> n \<le> 122)
      \<or> n = 170 \<or> n = 178 \<or> n = 179 \<or> n = 181 \<or> n = 185 \<or> n = 186
      \<or> (188 \<le> n \<and> n \<le> 190) \<or> (192 \<le> n \<and> n \<le> 214)
      \<or> (216 \<le> n \<and> n \<le> 246) \<or> (248 \<le> n \<and> n \<le> 255))"

text \<open>
  \<^verbatim>\<open>re.findall(r'\b\w+\b', text)\<close>: the scan starts a match at the first word character
  after a non-word character (or at the start), the greedy \<^verbatim>\<open>\w+\<close> takes the whole run
  and the closing \<^verbatim>\<open>\b\<close> holds at its end. \<open>cur\<close> is the run read so far.
\<close>

fun findall_words :: "string \<Rightarrow> string \<Rightarrow> string list" where
  "findall_words cur [] = (if cur = [] then [] else [cur])"
| "findall_words cur (c # cs) =
     (if is_word_char c then findall_words (cur @ [c]) cs
      else if cur = [] then findall_words [] cs
      else cur # findall_words [] cs)"

text \<open>\<^verbatim>\<open>SimpleEmbeddingService._tokenize\<close>.\<close>

definition tokenize :: "string \<Rightarrow> string list" where
  "tokenize text = findall_words [] (map py_lower text)"

text \<open>
  \<^verbatim>\<open>collections.Counter\<close>: a dictionary of counts that keeps its keys in the order of
  their first insertion, here an association list in that order. \<open>counter_incr\<close> is
  \<^verbatim>\<open>c[w] += 1\<close>.
\<close>

fun counter_incr :: "'a \<Rightarrow> ('a \<times> nat) list \<Rightarrow> ('a \<times> nat) list" where
  "counter_incr w [] = [(w, 1)]"
| "counter_incr w ((k, c) # kcs) =
     (if k = w then (k, c + 1) # kcs else (k, c) # counter_incr w kcs)"

definition Counter :: "'a list \<Rightarrow> ('a \<times> nat) list" where
  "Counter ws = foldl (\<lambda>m w. counter_incr w m) [] ws"

text \<open>
  \<^verbatim>\<open>Counter.most_common(n)\<close> is \<^verbatim>\<open>heapq.nlargest(n, self.items(), key=itemgetter(1))\<close>,
  which the library documents as \<^verbatim>\<open>sorted(iterable, key=key, reverse=True)[:n]\<close>:
  elements of equal count stay in the order first encountered.
\<close>

definition most_common :: "('a \<times> nat) list \<Rightarrow> nat \<Rightarrow> ('a \<times> nat) list" where
  "most_common counts n = take n (sort_reverse snd counts)"

text \<open>
  The service object. Its dictionaries keep insertion order: \<open>vocabulary\<close> is an
  association list, \<open>idf_values\<close> (only looked up) a map. \<^verbatim>\<open>embedding_dim\<close> is set to
  384 by the constructor and never assigned again.
\<close>

record embedding_service =
  vocabulary :: "(string \<times> nat) list"
  idf_values :: "string \<rightharpoonup> real"

definition svc_embedding_dim :: nat where
  "svc_embedding_dim = 384"

definition service_init :: embedding_service where
  "service_init = \<lparr>vocabulary = [], idf_values = Map.empty\<rparr>"

text \<open>\<^verbatim>\<open>{word: i for i, (word, _) in enumerate(most_common)}\<close>.\<close>

definition enumerate_words :: "(string \<times> nat) list \<Rightarrow> (string \<times> nat) list" where
  "enumerate_words mc = zip (map fst mc) [0..<length mc]"

text \<open>
  The second loop of \<^verbatim>\<open>_build_vocabulary\<close>: each text adds one to the count of each of
  its distinct words. The iteration order of \<^verbatim>\<open>set(words)\<close> is not fixed; \<^const>\<open>remdups\<close>
  stands for it, and the counts are only looked up.
\<close>

definition word_doc_counts :: "string list \<Rightarrow> (string \<times> nat) list" where
  "word_doc_counts texts =
     foldl (\<lambda>m text. foldl (\<lambda>m' word. counter_incr word m') m (remdups (tokenize text))) [] texts"

definition counter_get :: "('a \<times> nat) list \<Rightarrow> 'a \<Rightarrow> nat \<Rightarrow> nat" where
  "counter_get m w dflt = (case map_of m w of None \<Rightarrow> dflt | Some c \<Rightarrow> c)"

text \<open>
  \<^verbatim>\<open>SimpleEmbeddingService._build_vocabulary\<close>, in its two parts: lines 50 to 59 make
  the vocabulary, lines 61 to 71 add the IDF value of each of its words to
  \<^verbatim>\<open>self.idf_values\<close>.
\<close>

definition make_vocabulary :: "string list \<Rightarrow> (string \<times> nat) list" where
  "make_vocabulary texts =
     (let all_words = concat (map tokenize texts);
          word_counts = Counter all_words;
          mc = most_common word_counts (min 1000 (length word_counts))
      in enumerate_words mc)"

definition make_idf_values ::
  "(string \<rightharpoonup> real) \<Rightarrow> string list \<Rightarrow> (string \<times> nat) list \<Rightarrow> (string \<rightharpoonup> real)" where
  "make_idf_values idf texts vocab =
     (let doc_count = length texts;
          word_doc_count = word_doc_counts texts
      in foldl (\<lambda>m (word, i).
                  m(word \<mapsto> ln (real doc_count / real (counter_get word_doc_count word 1 + 1))))
               idf vocab)"

definition build_vocabulary :: "embedding_service \<Rightarrow> string list \<Rightarrow> embedding_service" where
  "build_vocabulary svc texts =
     \<lparr>vocabulary = make_vocabulary texts,
      idf_values = make_idf_values (idf_values svc) texts (make_vocabulary texts)\<rparr>"

text \<open>
  The accumulation loop of \<^verbatim>\<open>_text_to_embedding\<close> over \<^verbatim>\<open>word_counts.items()\<close>;
  \<open>n\<close> is \<^verbatim>\<open>len(words)\<close>, positive whenever the loop has an item.
\<close>

fun accumulate_loop ::
  "embedding_service \<Rightarrow> nat \<Rightarrow> (string \<times> nat) list \<Rightarrow> vec \<Rightarrow> vec" where
  "accumulate_loop svc n [] embedding = embedding"
| "accumulate_loop svc n ((word, count) # items) embedding =
     (case map_of (vocabulary svc) word of
        None \<Rightarrow> accumulate_loop svc n items embedding
      | Some v \<Rightarrow>
          (let idx = v mod svc_embedding_dim;
               tf = (if n \<noteq> 0 then real count / real n else 0);
               idf = (case idf_values svc word of None \<Rightarrow> 1 | Some x \<Rightarrow> x)
           in accumulate_loop svc n items (embedding[idx := embedding ! idx + tf * idf])))"

definition accumulate :: "embedding_service \<Rightarrow> string \<Rightarrow> vec" where
  "accumulate svc text =
     (let words = tokenize text in
      accumulate_loop svc (length words) (Counter words) (replicate svc_embedding_dim 0))"

text \<open>
  \<^verbatim>\<open>SimpleEmbeddingService._text_to_embedding\<close>. The unseeded draw
  \<^verbatim>\<open>np.random.normal(0, 0.1, self.embedding_dim)\<close> is the argument \<open>draw\<close>: the state of the
  generator is an input of the call that the caller does not choose. The test of the
  branch is \<^verbatim>\<open>np.sum(embedding) > 0\<close>.
\<close>

definition text_to_embedding :: "embedding_service \<Rightarrow> vec \<Rightarrow> string \<Rightarrow> error + vec" where
  "text_to_embedding svc draw text =
     (let embedding = accumulate svc text in
      if sum_list embedding > 0 then np_divide embedding (linalg_norm embedding)
      else np_divide draw (linalg_norm draw))"

text \<open>The branch the call takes.\<close>

datatype branch = Normalized | Fallback

definition embedding_branch :: "embedding_service \<Rightarrow> string \<Rightarrow> branch" where
  "embedding_branch svc text = (if sum_list (accumulate svc text) > 0 then Normalized else Fallback)"

text \<open>The words of a text that the vocabulary knows.\<close>

definition recognized_terms :: "embedding_service \<Rightarrow> string \<Rightarrow> string list" where
  "recognized_terms svc text = filter (\<lambda>w. map_of (vocabulary svc) w \<noteq> None) (tokenize text)"

text \<open>
  The specification's "lowercase", written from its words: a token holds no uppercase
  letter. The uppercase letters among the code points 0 to 255 are \<open>A\<close> to \<open>Z\<close> and the
  accented capitals 192 to 222, the multiplication sign 215 apart.
\<close>

definition is_upper_char :: "char \<Rightarrow> bool" where
  "is_upper_char c =
     (let n = (of_char c :: nat) in
      (65 \<le> n \<and> n \<le> 90) \<or> (192 \<le> n \<and> n \<le> 222 \<and> n \<noteq> 215))"

text \<open>The count a counter holds for a key, zero for a key it does not hold.\<close>

definition cnt :: "('a \<times> nat) list \<Rightarrow> 'a \<Rightarrow> nat" where
  "cnt m w = (case map_of m w of None \<Rightarrow> 0 | Some c \<Rightarrow> c)"

text \<open>The tokens of the whole reference set, in order: \<^verbatim>\<open>all_words\<close> of
  \<^verbatim>\<open>_build_vocabulary\<close>.\<close>

definition all_words :: "string list \<Rightarrow> string list" where
  "all_words texts = concat (map tokenize texts)"

text \<open>
  The specification's tokens, written from its words: the maximal runs of word
  characters of a text, from left to right. Non-word characters are skipped, then the
  longest prefix of word characters is one token.
\<close>

function word_runs :: "string \<Rightarrow> string list" where
  "word_runs s =
     (case dropWhile (\<lambda>c. \<not> is_word_char c) s of
        [] \<Rightarrow> []
      | r # rs \<Rightarrow> takeWhile is_word_char (r # rs) # word_runs (dropWhile is_word_char (r # rs)))"
  by pat_completeness auto
termination
proof (relation "measure length")
  show "wf (measure length)" by simp
next
  fix s :: string and r rs
  assume a: "dropWhile (\<lambda>c. \<not> is_word_char c) s = r # rs"
  have "length (dropWhile is_word_char (r # rs)) \<le> length (r # rs)"
    by (rule length_dropWhile_le)
  moreover have "is_word_char r" using hd_dropWhile [of "\<lambda>c. \<not> is_word_char c" s] a by simp
  ultimately have "length (dropWhile is_word_char (r # rs)) < length (r # rs)"
    using length_dropWhile_le [of is_word_char rs] by simp
  moreover have "length (r # rs) \<le> length s"
    using length_dropWhile_le [of "\<lambda>c. \<not> is_word_char c" s] a by simp
  ultimately show "(dropWhile is_word_char (r # rs), s) \<in> measure length" by simp
qed


section \<open>The chunker\<close>

text \<open>
  \<^verbatim>\<open>DocumentProcessor\<close> and its constructor, which stores the two numbers and checks
  nothing: the result is never an error.
\<close>

record DocumentProcessor =
  chunk_size :: int
  chunk_overlap :: int

definition DocumentProcessor_init :: "int \<Rightarrow> int \<Rightarrow> error + DocumentProcessor" where
  "DocumentProcessor_init cs ov = Inr \<lparr>chunk_size = cs, chunk_overlap = ov\<rparr>"

text \<open>
  An index of a slice or of \<^verbatim>\<open>str.rfind\<close> on a string of length \<open>n\<close>: a negative index
  counts from the end, and the result is clipped to \<open>0 \<dots> n\<close>.
\<close>

definition adjust_index :: "int \<Rightarrow> int \<Rightarrow> int" where
  "adjust_index n i = (if i < 0 then max 0 (i + n) else min i n)"

text \<open>\<^verbatim>\<open>text.rfind(c, start, end)\<close> for a single character: the highest index in the
  adjusted window that holds \<open>c\<close>, or \<open>-1\<close>.\<close>

fun rfind_between :: "string \<Rightarrow> char \<Rightarrow> nat \<Rightarrow> nat \<Rightarrow> int" where
  "rfind_between text c lo 0 = - 1"
| "rfind_between text c lo (Suc h) =
     (if h < lo then - 1
      else if text ! h = c then int h
      else rfind_between text c lo h)"

definition rfind :: "string \<Rightarrow> char \<Rightarrow> int \<Rightarrow> int \<Rightarrow> int" where
  "rfind text c start end_pos =
     (let n = int (length text) in
      rfind_between text c (nat (adjust_index n start)) (nat (adjust_index n end_pos)))"

text \<open>The slice \<^verbatim>\<open>text[start:end]\<close>.\<close>

definition py_slice :: "string \<Rightarrow> int \<Rightarrow> int \<Rightarrow> string" where
  "py_slice text start end_pos =
     (let n = int (length text);
          s = adjust_index n start;
          e = adjust_index n end_pos
      in take (nat (e - s)) (drop (nat s) text))"

text \<open>\<^verbatim>\<open>str.strip()\<close>: the whitespace of Python among the code points 0 to 255.\<close>

definition is_space :: "char \<Rightarrow> bool" where
  "is_space c =
     (let n = (of_char c :: nat) in
      (9 \<le> n \<and> n \<le> 13) \<or> (28 \<le> n \<and> n \<le> 32) \<or> n = 133 \<or> n = 160)"

definition strip :: "string \<Rightarrow> string" where
  "strip s = rev (dropWhile is_space (rev (dropWhile is_space s)))"

text \<open>Lines 269 to 281 of \<^verbatim>\<open>_chunk_text\<close>: the end of the chunk that starts at \<open>start\<close>.\<close>

definition chunk_end :: "DocumentProcessor \<Rightarrow> string \<Rightarrow> int \<Rightarrow> int" where
  "chunk_end p text start =
     (let end_pos = start + chunk_size p in
      if end_pos < int (length text)
      then (let sentence_end = rfind text (CHR ''.'') start end_pos in
            if sentence_end > start + chunk_size p - 100 then sentence_end + 1
            else (let space_pos = rfind text (CHR '' '') start end_pos in
                  if space_pos > start then space_pos else end_pos))
      else end_pos)"

text \<open>
  The \<^verbatim>\<open>while\<close> loop of \<^verbatim>\<open>_chunk_text\<close>. It may run forever; the value \<open>None\<close> stands for
  a loop that does not return.
\<close>

partial_function (option) chunk_loop ::
  "DocumentProcessor \<Rightarrow> string \<Rightarrow> int \<Rightarrow> string list \<Rightarrow> string list option" where
  "chunk_loop p text start chunks =
     (if start < int (length text)
      then (let end_pos = chunk_end p text start;
                chunk = strip (py_slice text start end_pos);
                chunks' = (if chunk \<noteq> [] then chunks @ [chunk] else chunks);
                start' = end_pos - chunk_overlap p
            in if start' \<ge> int (length text) then Some chunks'
               else chunk_loop p text start' chunks')
      else Some chunks)"

declare chunk_loop.simps [code]

text \<open>\<^verbatim>\<open>DocumentProcessor._chunk_text\<close>.\<close>

definition chunk_text :: "DocumentProcessor \<Rightarrow> string \<Rightarrow> string list option" where
  "chunk_text p text =
     (if int (length text) \<le> chunk_size p then Some [text]
      else chunk_loop p text 0 [])"

section \<open>Concrete data\<close>

text \<open>An arithmetic without rounding, for the examples: on the finite vectors used there
  (unit vectors and zero vectors) float32 arithmetic is exact as well.\<close>

fun fin_val :: "fp \<Rightarrow> real" where
  "fin_val (Fin r) = r"
| "fin_val PInf = 0"
| "fin_val NInf = 0"
| "fin_val NaN = 0"

definition exact_ops :: float_ops where
  "exact_ops =
     \<lparr>cast_op = (\<lambda>x. x),
      norm_op = (\<lambda>v. Fin (sqrt (sum_list (map (\<lambda>x. fin_val x * fin_val x) v)))),
      quot_op = (\<lambda>x c. Fin (fin_val x / fin_val c)),
      dot_op = (\<lambda>a b. Fin (sum_list (map (\<lambda>(x, y). fin_val x * fin_val y) (zip a b)))),
      nan_sort_op = (\<lambda>xs. xs)\<rparr>"

definition doc_a :: Document where
  "doc_a = \<lparr>content = ''Insurance companies are liable.'', source = ''A'',
            chunk_id = ''A_chunk_0'', metadata = [(''chunk_index'', MInt 0)]\<rparr>"

definition doc_b :: Document where
  "doc_b = \<lparr>content = ''Vehicles without permits void coverage.'', source = ''B'',
            chunk_id = ''B_chunk_0'', metadata = [(''chunk_index'', MInt 0)]\<rparr>"

definition store_ab :: store where
  "store_ab = \<lparr>embedding_dim = 2, documents = [doc_a, doc_b],
               embeddings = [[Fin 1, Fin 0], [Fin 0, Fin 1]]\<rparr>"

text \<open>The default configuration of the constructor, and a text of 1003 characters whose
  only space is its second character.\<close>

definition long_token_text :: string where
  "long_token_text = ''a b'' @ replicate 1000 (CHR ''x'')"

definition default_processor :: DocumentProcessor where
  "default_processor = \<lparr>chunk_size = 1000, chunk_overlap = 200\<rparr>"

section \<open>Loading and replacing: proofs\<close>

lemma reconstruct_documents_length:
  "reconstruct_documents ds = Inr docs \<Longrightarrow> length docs = length ds"
  by (induction ds arbitrary: docs) (auto split: sum.splits)

lemma convert_embeddings_length:
  "convert_embeddings ops es = Inr vs \<Longrightarrow> length vs = length es"
  by (induction es arbitrary: vs) (auto split: sum.splits option.splits)

lemma astype_all_length:
  "astype_all ops as = Inr vs \<Longrightarrow> length vs = length as"
  by (induction as arbitrary: vs) (auto split: sum.splits)

lemma load_mismatch_cleared:
  assumes "length (get_or_empty (snap_documents data)) \<noteq> length (get_or_empty (snap_embeddings data))"
  shows "load_existing_data ops s (Snapshot data) = cleared s"
proof (cases "reconstruct_documents (get_or_empty (snap_documents data))")
  case (Inl e)
  then show ?thesis by (simp add: load_existing_data_def)
next
  case (Inr docs)
  then have "length docs = length (get_or_empty (snap_documents data))"
    by (rule reconstruct_documents_length)
  with assms Inr show ?thesis by (simp add: load_existing_data_def Let_def)
qed

text \<open>The paths that keep the two sequences of the same length: every load of an
  existing file, and every call of \<^verbatim>\<open>add_documents\<close> that returns.\<close>

lemma load_file_same_length:
  "f \<noteq> NoFile \<Longrightarrow>
   length (documents (load_existing_data ops s f)) = length (embeddings (load_existing_data ops s f))"
  by (auto simp: load_existing_data_def cleared_def Let_def
      dest: reconstruct_documents_length convert_embeddings_length
      split: file_state.splits sum.splits)

lemma add_documents_success:
  assumes "add_documents ops s docs embs = (Inr (), s')"
  shows "documents s' = docs \<and> astype_all ops embs = Inr (embeddings s')
    \<and> length (documents s') = length (embeddings s')"
proof -
  have len: "length docs = length embs"
    using assms by (auto simp: add_documents_def split: if_splits)
  obtain vs where vs: "astype_all ops embs = Inr vs"
    using assms len by (cases "astype_all ops embs") (auto simp: add_documents_def)
  then have "s' = s\<lparr>documents := docs, embeddings := vs\<rparr>"
    using assms len by (simp add: add_documents_def)
  then show ?thesis using vs len astype_all_length [OF vs] by simp
qed

section \<open>Search: floating point comparisons\<close>

lemma lt_fp_rank: "a \<noteq> NaN \<Longrightarrow> b \<noteq> NaN \<Longrightarrow> lt_fp a b \<longleftrightarrow> sort_rank a < sort_rank b"
  by (cases a; cases b) auto

lemma sort_rank_inj: "sort_rank a = sort_rank b \<longleftrightarrow> a = b"
  by (cases a; cases b) auto

lemma linalg_norm32_zeros: "\<forall>x\<in>set v. x = Fin 0 \<Longrightarrow> linalg_norm32 ops v = Fin 0"
  by (simp add: linalg_norm32_def)

lemma normalize_query_total:
  "normalize_query ops q =
     Inr (if gt_zero (linalg_norm32 ops q)
          then map (\<lambda>x. quot_op ops x (linalg_norm32 ops q)) q else q)"
  by (auto simp: normalize_query_def np_divide32_def Let_def)

lemma normalize_query_unit:
  "normalize_query ops (map (cast_op ops) q) = Inr (query_unit ops q)"
  by (simp add: normalize_query_total query_unit_def Let_def)

lemma length_query_unit: "length (query_unit ops q) = length q"
  by (simp add: query_unit_def Let_def)

lemma doc_similarity_cases:
  "doc_similarity ops q d =
     (if gt_zero (linalg_norm32 ops d) \<and> length q \<noteq> length d
      then Inl (ValueError ''shapes not aligned'')
      else Inr (if gt_zero (linalg_norm32 ops d)
                then dot32 ops q (map (\<lambda>x. quot_op ops x (linalg_norm32 ops d)) d)
                else Fin 0))"
  by (auto simp: doc_similarity_def np_divide32_def np_dot32_def Let_def)

lemma doc_similarity_cosine:
  assumes "length q = length d \<or> \<not> gt_zero (linalg_norm32 ops d)"
  shows "doc_similarity ops (query_unit ops q) d = Inr (cosine_similarity ops q d)"
  using assms
  by (auto simp: doc_similarity_cases cosine_similarity_def length_query_unit Let_def)

section \<open>Search: the loop and the reverse sort\<close>

lemma similarities_loop_ok:
  "(\<forall>d\<in>set ds. gt_zero (linalg_norm32 ops d) \<longrightarrow> length d = length q) \<Longrightarrow>
    similarities_loop ops (query_unit ops q) ds i
      = Inr (map (\<lambda>j. (cosine_similarity ops q (ds ! j), i + j)) [0..<length ds])"
proof (induction ds arbitrary: i)
  case Nil
  then show ?case by simp
next
  case (Cons d ds)
  have d: "doc_similarity ops (query_unit ops q) d = Inr (cosine_similarity ops q d)"
    using Cons.prems by (intro doc_similarity_cosine) force
  have rest: "similarities_loop ops (query_unit ops q) ds (Suc i) =
      Inr (map (\<lambda>j. (cosine_similarity ops q (ds ! j), Suc i + j)) [0..<length ds])"
    using Cons.prems by (intro Cons.IH) simp
  have "[0..<length (d # ds)] = 0 # map Suc [0..<length ds]"
    by (simp add: upt_conv_Cons map_Suc_upt del: upt_Suc)
  then show ?case using d rest by (simp add: comp_def del: upt_Suc)
qed

lemma similarities_loop_fails:
  "\<exists>d\<in>set ds. gt_zero (linalg_norm32 ops d) \<and> length d \<noteq> length q' \<Longrightarrow>
   \<exists>e. similarities_loop ops q' ds i = Inl e"
proof (induction ds arbitrary: i)
  case Nil
  then show ?case by simp
next
  case (Cons d ds)
  show ?case
  proof (cases "gt_zero (linalg_norm32 ops d) \<and> length q' \<noteq> length d")
    case True
    then show ?thesis by (simp add: doc_similarity_cases)
  next
    case False
    then have "\<exists>d\<in>set ds. gt_zero (linalg_norm32 ops d) \<and> length d \<noteq> length q'"
      using Cons.prems by auto
    then obtain e where "similarities_loop ops q' ds (Suc i) = Inl e"
      using Cons.IH by blast
    then show ?thesis by (simp split: sum.splits)
  qed
qed

lemma similarities_loop_no_division:
  "similarities_loop ops q' ds i \<noteq> Inl DivideByZero"
  by (induction ds arbitrary: i) (auto simp: doc_similarity_cases split: sum.splits if_splits)

lemma sort_reverse_set: "set (sort_reverse f xs) = set xs"
  by (simp add: sort_reverse_def)

lemma sort_reverse_length: "length (sort_reverse f xs) = length xs"
  by (simp add: sort_reverse_def)

lemma sort_reverse_distinct: "distinct (sort_reverse f xs) = distinct xs"
  by (simp add: sort_reverse_def)

lemma sort_reverse_sorted: "sorted_wrt (\<lambda>x y. f y \<le> f x) (sort_reverse f xs)"
proof -
  have "sorted_wrt (\<lambda>x y. f x \<le> f y) (sort_key f (rev xs))"
    using sorted_sort_key [of f "rev xs"] by (simp add: sorted_wrt_map)
  then show ?thesis by (simp add: sort_reverse_def sorted_wrt_rev)
qed

lemma sort_reverse_stable:
  "filter (\<lambda>y. f y = v) (sort_reverse f xs) = filter (\<lambda>y. f y = v) xs"
  by (simp add: sort_reverse_def rev_filter [symmetric] sort_key_stable)

lemma sorted_filter_nth:
  "sorted_wrt R (filter P ys) \<Longrightarrow> a < b \<Longrightarrow> b < length ys \<Longrightarrow> P (ys ! a) \<Longrightarrow> P (ys ! b)
   \<Longrightarrow> R (ys ! a) (ys ! b)"
proof (induction ys arbitrary: a b)
  case Nil
  then show ?case by simp
next
  case (Cons y ys)
  obtain b' where b: "b = Suc b'" using Cons.prems(2) by (cases b) auto
  show ?case
  proof (cases a)
    case 0
    have "ys ! b' \<in> set (filter P ys)" using Cons.prems b by simp
    then show ?thesis using Cons.prems 0 b by auto
  next
    case (Suc a')
    have "sorted_wrt R (filter P ys)" using Cons.prems(1) by (simp split: if_splits)
    then show ?thesis using Cons.IH [of a' b'] Cons.prems Suc b by simp
  qed
qed

lemma ties_keep_order:
  assumes "\<And>v. filter (\<lambda>y. f y = v) ys = filter (\<lambda>y. f y = v) xs"
    and "sorted_wrt (\<lambda>a b. g a < (g b :: nat)) xs"
  shows "sorted_wrt (\<lambda>a b. f a = f b \<longrightarrow> g a < g b) ys"
proof -
  have "g (ys ! a) < g (ys ! b)" if "a < b" "b < length ys" "f (ys ! a) = f (ys ! b)" for a b
  proof -
    let ?P = "\<lambda>y. f y = f (ys ! b)"
    have "sorted_wrt (\<lambda>a b. g a < g b) (filter ?P xs)"
      using assms(2) by (rule sorted_wrt_filter)
    then have "sorted_wrt (\<lambda>a b. g a < g b) (filter ?P ys)" by (simp add: assms(1))
    then show ?thesis using that by (rule sorted_filter_nth) simp_all
  qed
  then show ?thesis by (simp add: sorted_wrt_iff_nth_less)
qed

lemma sort_reverse_order:
  assumes "sorted_wrt (\<lambda>a b. g a < (g b :: nat)) xs"
  shows "sorted_wrt (\<lambda>a b. f b < f a \<or> (f b = f a \<and> g a < g b)) (sort_reverse f xs)"
proof -
  let ?r = "sort_reverse f xs"
  have 1: "sorted_wrt (\<lambda>x y. f y \<le> f x) (sort_reverse f xs)" by (rule sort_reverse_sorted)
  have 2: "sorted_wrt (\<lambda>a b. f a = f b \<longrightarrow> g a < g b) (sort_reverse f xs)"
    using sort_reverse_stable assms by (rule ties_keep_order)
  have "f (?r ! j) < f (?r ! i) \<or> (f (?r ! j) = f (?r ! i) \<and> g (?r ! i) < g (?r ! j))"
    if "i < j" "j < length ?r" for i j
  proof -
    have le: "f (?r ! j) \<le> f (?r ! i)"
      using 1 that by (simp add: sorted_wrt_iff_nth_less)
    have eq: "f (?r ! i) = f (?r ! j) \<longrightarrow> g (?r ! i) < g (?r ! j)"
      using 2 that by (simp add: sorted_wrt_iff_nth_less)
    show ?thesis using le eq by auto
  qed
  then show ?thesis by (simp add: sorted_wrt_iff_nth_less)
qed

section \<open>Search: the ranking\<close>

lemma collect_results_all:
  "\<forall>x\<in>set xs. snd x < length docs \<Longrightarrow> collect_results docs xs = map (\<lambda>i. docs ! i) (map snd xs)"
  by (induction docs xs rule: collect_results.induct) auto

lemma ranked_set: "set (ranked ops q es) = {0..<length es}"
  by (force simp: ranked_def sort_reverse_set)

lemma ranked_length: "length (ranked ops q es) = length es"
  by (simp add: ranked_def sort_reverse_length)

lemma ranked_distinct: "distinct (ranked ops q es)"
proof -
  let ?sims = "map (\<lambda>j. (cosine_similarity ops q (es ! j), j)) [0..<length es]"
  let ?key = "\<lambda>x :: fp \<times> nat. sort_rank (fst x)"
  have "distinct ?sims" by (simp add: distinct_map inj_on_def)
  then have "distinct (sort_reverse ?key ?sims)" by (simp add: sort_reverse_distinct)
  moreover have "inj_on snd (set (sort_reverse ?key ?sims))"
    by (auto simp: sort_reverse_set inj_on_def)
  ultimately show ?thesis by (simp add: ranked_def distinct_map)
qed

lemma ranked_sorted:
  assumes "\<forall>d\<in>set es. cosine_similarity ops q d \<noteq> NaN"
  shows "sorted_wrt (ranks_before ops q es) (ranked ops q es)"
proof -
  let ?sims = "map (\<lambda>j. (cosine_similarity ops q (es ! j), j)) [0..<length es]"
  let ?key = "\<lambda>x :: fp \<times> nat. sort_rank (fst x)"
  let ?R = "\<lambda>a b :: fp \<times> nat. ?key b < ?key a \<or> (?key b = ?key a \<and> snd a < snd b)"
  have "sorted_wrt (\<lambda>a b. snd a < snd b) ?sims"
    by (simp add: sorted_wrt_map)
  then have "sorted_wrt ?R (sort_reverse ?key ?sims)" by (rule sort_reverse_order)
  then have "sorted_wrt (\<lambda>a b. ranks_before ops q es (snd a) (snd b)) (sort_reverse ?key ?sims)"
  proof (rule sorted_wrt_mono_rel [rotated])
    fix a b
    assume a: "a \<in> set (sort_reverse ?key ?sims)" and b: "b \<in> set (sort_reverse ?key ?sims)"
      and R: "?R a b"
    obtain i where i: "i < length es" "a = (cosine_similarity ops q (es ! i), i)"
      using a by (auto simp: sort_reverse_set)
    obtain j where j: "j < length es" "b = (cosine_similarity ops q (es ! j), j)"
      using b by (auto simp: sort_reverse_set)
    have "fst a \<noteq> NaN" "fst b \<noteq> NaN" using assms i j by auto
    then show "ranks_before ops q es (snd a) (snd b)"
      using R i j by (auto simp: ranks_before_def lt_fp_rank sort_rank_inj)
  qed
  then show ?thesis by (simp add: ranked_def sorted_wrt_map)
qed

lemma search_try_ranked:
  assumes "length (documents s) = length (embeddings s)"
    and "\<forall>d\<in>set (embeddings s). gt_zero (linalg_norm32 ops d) \<longrightarrow> length d = length q"
    and "0 \<le> k"
    and "\<forall>d\<in>set (embeddings s). cosine_similarity ops q d \<noteq> NaN"
  shows "search_try ops s (FloatArray q) k
    = Inr (map (\<lambda>i. documents s ! i) (take (nat k) (ranked ops q (embeddings s))))"
proof -
  let ?key = "\<lambda>x :: fp \<times> nat. sort_rank (fst x)"
  let ?sims = "map (\<lambda>j. (cosine_similarity ops q (embeddings s ! j), j)) [0..<length (embeddings s)]"
  have loop: "similarities_loop ops (query_unit ops q) (embeddings s) 0 = Inr ?sims"
    using similarities_loop_ok [OF assms(2), of 0] by simp
  have nonan: "\<not> (\<exists>x\<in>set ?sims. fst x = NaN)" using assms(4) by auto
  then have sorted: "sort_similarities ops ?sims = sort_reverse ?key ?sims"
    by (simp only: sort_similarities_def if_False)
  have "\<forall>x\<in>set (take (nat k) (sort_reverse ?key ?sims)). snd x < length (documents s)"
    using assms(1) by (auto dest!: in_set_takeD simp: sort_reverse_set)
  then have "collect_results (documents s) (take (nat k) (sort_reverse ?key ?sims))
      = map (\<lambda>i. documents s ! i) (map snd (take (nat k) (sort_reverse ?key ?sims)))"
    by (rule collect_results_all)
  then show ?thesis
    using loop assms(3) sorted
    by (simp add: search_try_def astype_float32_def normalize_query_unit slice_to_def
        ranked_def take_map)
qed

section \<open>The embedder: the norm over the reals\<close>

lemma sum_squares_nonneg: "0 \<le> sum_list (map (\<lambda>x. x * x) (v::real list))"
  by (induction v) auto

lemma sum_squares_zero_iff: "sum_list (map (\<lambda>x. x * x) v) = 0 \<longleftrightarrow> (\<forall>x\<in>set v. x = (0::real))"
  using sum_squares_nonneg
  by (induction v) (auto simp: add_nonneg_eq_0_iff)

lemma linalg_norm_nonneg: "0 \<le> linalg_norm v"
  by (simp add: linalg_norm_def sum_squares_nonneg)

lemma linalg_norm_zero_iff: "linalg_norm v = 0 \<longleftrightarrow> (\<forall>x\<in>set v. x = 0)"
  by (simp add: linalg_norm_def sum_squares_zero_iff)

section \<open>The embedder: tokens, counters and the vocabulary\<close>

declare word_runs.simps [simp del]

lemma word_runs_Nil: "word_runs [] = []"
  by (simp add: word_runs.simps)

lemma word_runs_skip: "\<not> is_word_char c \<Longrightarrow> word_runs (c # cs) = word_runs cs"
  by (subst word_runs.simps, subst (2) word_runs.simps) simp

lemma word_runs_word:
  "is_word_char c \<Longrightarrow> word_runs (c # cs) = (c # takeWhile is_word_char cs) # word_runs (dropWhile is_word_char cs)"
  by (subst word_runs.simps) simp

lemma findall_words_runs:
  "findall_words cur s =
     (if cur = [] then word_runs s
      else (cur @ takeWhile is_word_char s) # word_runs (dropWhile is_word_char s))"
  by (induction s arbitrary: cur) (auto simp: word_runs_Nil word_runs_skip word_runs_word)

lemma tokenize_runs: "tokenize text = word_runs (map py_lower text)"
  by (simp add: tokenize_def findall_words_runs)

lemma counter_incr_keys:
  "map fst (counter_incr w m) = (if w \<in> fst ` set m then map fst m else map fst m @ [w])"
  by (induction w m rule: counter_incr.induct) auto

lemma counter_incr_cnt: "cnt (counter_incr w m) v = cnt m v + (if v = w then 1 else 0)"
  by (induction w m rule: counter_incr.induct) (auto simp: cnt_def)

lemma counter_incr_pos: "(\<forall>x\<in>set m. 0 < snd x) \<Longrightarrow> (\<forall>x\<in>set (counter_incr w m). 0 < snd x)"
  by (induction w m rule: counter_incr.induct) auto

lemma counter_incr_distinct: "distinct (map fst m) \<Longrightarrow> distinct (map fst (counter_incr w m))"
  by (simp add: counter_incr_keys)

lemma counter_incr_keyset: "fst ` set (counter_incr w m) = insert w (fst ` set m)"
  by (induction w m rule: counter_incr.induct) auto

lemma foldl_incr_keys:
  "fst ` set (foldl (\<lambda>m w. counter_incr w m) m ws) = fst ` set m \<union> set ws"
  by (induction ws arbitrary: m) (simp_all add: counter_incr_keyset)

lemma foldl_incr_distinct:
  "distinct (map fst m) \<Longrightarrow> distinct (map fst (foldl (\<lambda>m w. counter_incr w m) m ws))"
  by (induction ws arbitrary: m) (auto simp: counter_incr_distinct)

lemma foldl_incr_cnt:
  "cnt (foldl (\<lambda>m w. counter_incr w m) m ws) v = cnt m v + count_list ws v"
  by (induction ws arbitrary: m) (auto simp: counter_incr_cnt)

lemma Counter_distinct: "distinct (map fst (Counter ws))"
  by (simp add: Counter_def foldl_incr_distinct)

lemma Counter_keys: "fst ` set (Counter ws) = set ws"
  by (simp add: Counter_def foldl_incr_keys)

lemma Counter_count: "(w, c) \<in> set (Counter ws) \<Longrightarrow> c = count_list ws w"
proof -
  assume "(w, c) \<in> set (Counter ws)"
  then have "map_of (Counter ws) w = Some c" using Counter_distinct [of ws] by simp
  then have "cnt (Counter ws) w = c" by (simp add: cnt_def)
  moreover have "cnt (Counter ws) w = count_list ws w"
    using foldl_incr_cnt [of "[]" ws w] by (simp add: Counter_def) (simp add: cnt_def)
  ultimately show ?thesis by simp
qed

lemma Counter_length: "length (Counter ws) = card (set ws)"
proof -
  have "card (set ws) = card (set (map fst (Counter ws)))" by (simp add: Counter_keys)
  also have "\<dots> = length (map fst (Counter ws))" using Counter_distinct by (rule distinct_card)
  finally show ?thesis by simp
qed


lemma most_common_props:
  assumes "distinct (map fst counts)"
  shows "length (most_common counts n) = min n (length counts)"
    and "distinct (map fst (most_common counts n))"
    and "set (most_common counts n) \<subseteq> set counts"
    and "sorted_wrt (\<lambda>a b. snd b \<le> snd a) (most_common counts n)"
    and "\<forall>x\<in>set (most_common counts n). \<forall>y\<in>set counts. y \<notin> set (most_common counts n) \<longrightarrow> snd y \<le> snd x"
proof -
  let ?r = "sort_reverse snd counts"
  show "length (most_common counts n) = min n (length counts)"
    by (simp add: most_common_def sort_reverse_length min.commute)
  have d: "distinct (map fst ?r)"
  proof -
    have "distinct counts" using assms by (rule distinct_map [THEN iffD1, THEN conjunct1])
    then have "distinct ?r" by (simp add: sort_reverse_distinct)
    moreover have "inj_on fst (set ?r)"
      using assms by (simp add: sort_reverse_set distinct_map)
    ultimately show ?thesis by (simp add: distinct_map)
  qed
  then show "distinct (map fst (most_common counts n))"
    by (simp add: most_common_def take_map [symmetric] distinct_take)
  show "set (most_common counts n) \<subseteq> set counts"
    using set_take_subset [of n ?r] by (simp add: most_common_def sort_reverse_set)
  have s: "sorted_wrt (\<lambda>a b. snd b \<le> snd a) ?r" by (rule sort_reverse_sorted)
  then show "sorted_wrt (\<lambda>a b. snd b \<le> snd a) (most_common counts n)"
    unfolding most_common_def by (rule sorted_wrt_take)
  show "\<forall>x\<in>set (most_common counts n). \<forall>y\<in>set counts. y \<notin> set (most_common counts n) \<longrightarrow> snd y \<le> snd x"
  proof (intro ballI impI)
    fix x y assume x: "x \<in> set (most_common counts n)" and y: "y \<in> set counts" "y \<notin> set (most_common counts n)"
    have "y \<in> set (take n ?r @ drop n ?r)" using y(1) by (simp add: sort_reverse_set)
    then have yd: "y \<in> set (drop n ?r)" using y(2) by (simp add: most_common_def del: append_take_drop_id)
    have "sorted_wrt (\<lambda>a b. snd b \<le> snd a) (take n ?r @ drop n ?r)" using s by simp
    then show "snd y \<le> snd x"
      using x yd by (simp add: sorted_wrt_append most_common_def del: append_take_drop_id)
  qed
qed


lemma py_lower_not_upper: "\<not> is_upper_char (py_lower c)"
proof -
  let ?n = "of_char c :: nat"
  show ?thesis
  proof (cases "(65 \<le> ?n \<and> ?n \<le> 90) \<or> (192 \<le> ?n \<and> ?n \<le> 222 \<and> ?n \<noteq> 215)")
    case True
    then have "?n + 32 < 256" by auto
    then have "(of_char (char_of (?n + 32)) :: nat) = ?n + 32" by simp
    then show ?thesis using True by (auto simp: py_lower_def is_upper_char_def Let_def)
  next
    case False
    then show ?thesis by (auto simp: py_lower_def is_upper_char_def Let_def)
  qed
qed

lemma findall_words_chars:
  "w \<in> set (findall_words cur s) \<Longrightarrow> c \<in> set w \<Longrightarrow> c \<in> set cur \<union> set s"
proof (induction s arbitrary: cur)
  case Nil
  then show ?case by (simp split: if_splits)
next
  case (Cons a s)
  show ?case
  proof (cases "is_word_char a")
    case True
    then have "w \<in> set (findall_words (cur @ [a]) s)" using Cons.prems(1) by simp
    then have "c \<in> set (cur @ [a]) \<union> set s" using Cons.prems(2) by (rule Cons.IH)
    then show ?thesis by auto
  next
    case False
    then have "w = cur \<or> w \<in> set (findall_words [] s)"
      using Cons.prems(1) by (simp split: if_splits)
    then show ?thesis
    proof
      assume "w = cur"
      then show ?thesis using Cons.prems(2) by simp
    next
      assume "w \<in> set (findall_words [] s)"
      then have "c \<in> set [] \<union> set s" using Cons.prems(2) by (rule Cons.IH)
      then show ?thesis by simp
    qed
  qed
qed

lemma tokenize_lowercase:
  assumes "w \<in> set (tokenize text)" "c \<in> set w"
  shows "\<not> is_upper_char c"
proof -
  have "c \<in> set [] \<union> set (map py_lower text)"
    using assms by (intro findall_words_chars [of w]) (simp_all add: tokenize_def)
  then obtain c' where "c = py_lower c'" by auto
  then show ?thesis by (simp add: py_lower_not_upper)
qed

lemma make_vocabulary_eq:
  "make_vocabulary texts =
     enumerate_words (most_common (Counter (all_words texts)) (min 1000 (length (Counter (all_words texts)))))"
  by (simp add: make_vocabulary_def all_words_def Let_def)

lemma vocabulary_build: "vocabulary (build_vocabulary svc texts) = make_vocabulary texts"
  by (simp add: build_vocabulary_def)


section \<open>The embedder: accumulation and normalization\<close>

lemma length_accumulate_loop: "length (accumulate_loop svc n items e) = length e"
  by (induction svc n items e rule: accumulate_loop.induct) (auto simp: Let_def split: option.splits)

lemma length_accumulate: "length (accumulate svc text) = 384"
  by (simp add: accumulate_def length_accumulate_loop svc_embedding_dim_def Let_def)

lemma sum_pos_norm_pos:
  assumes "0 < sum_list v" shows "0 < linalg_norm v"
proof -
  have "\<not> (\<forall>x\<in>set v. x = 0)"
  proof
    assume "\<forall>x\<in>set v. x = 0"
    then have "sum_list v = 0" by (induction v) auto
    then show False using assms by simp
  qed
  then have "linalg_norm v \<noteq> 0" by (simp add: linalg_norm_zero_iff)
  then show ?thesis using linalg_norm_nonneg [of v] by simp
qed

lemma sum_squares_divide:
  "sum_list (map (\<lambda>x. x * x) (map (\<lambda>x. x / c) v)) = sum_list (map (\<lambda>x. x * x) v) / (c * c :: real)"
  by (induction v) (auto simp: add_divide_distrib)

lemma linalg_norm_normalized:
  assumes "0 < linalg_norm v"
  shows "linalg_norm (map (\<lambda>x. x / linalg_norm v) v) = 1"
proof -
  let ?c = "linalg_norm v"
  have "linalg_norm (map (\<lambda>x. x / ?c) v) = sqrt (sum_list (map (\<lambda>x. x * x) v) / (?c * ?c))"
    by (simp only: linalg_norm_def [of "map (\<lambda>x. x / ?c) v"] sum_squares_divide)
  also have "\<dots> = sqrt (sum_list (map (\<lambda>x. x * x) v)) / ?c"
    using assms by (simp add: real_sqrt_divide real_sqrt_mult)
  also have "\<dots> = 1" using assms by (simp add: linalg_norm_def)
  finally show ?thesis .
qed

lemma accumulate_loop_unrecognized:
  "\<forall>x\<in>set items. map_of (vocabulary svc) (fst x) = None \<Longrightarrow>
   accumulate_loop svc n items e = e"
  by (induction svc n items e rule: accumulate_loop.induct) auto

lemma accumulate_unrecognized:
  assumes "recognized_terms svc text = []"
  shows "accumulate svc text = replicate svc_embedding_dim 0"
proof -
  have none: "\<forall>w\<in>set (tokenize text). map_of (vocabulary svc) w = None"
    using assms by (auto simp: recognized_terms_def filter_empty_conv)
  have "\<forall>x\<in>set (Counter (tokenize text)). map_of (vocabulary svc) (fst x) = None"
  proof
    fix x assume "x \<in> set (Counter (tokenize text))"
    then have "fst x \<in> fst ` set (Counter (tokenize text))" by (rule imageI)
    then have "fst x \<in> set (tokenize text)" by (simp add: Counter_keys)
    then show "map_of (vocabulary svc) (fst x) = None" using none by blast
  qed
  then show ?thesis
    by (simp add: accumulate_def Let_def accumulate_loop_unrecognized)
qed

lemma tokenize_d: "tokenize ''d'' = [''d'']"
  by code_simp

lemma sum_list_update_real:
  "i < length xs \<Longrightarrow> sum_list (xs[i := v]) = sum_list xs - xs ! i + (v::real)"
  by (induction xs arbitrary: i) (auto split: nat.splits)

lemma sum_list_zeros: "sum_list (replicate n (0::real)) = 0"
  by (simp add: sum_list_replicate)

lemma sum_squares_zeros: "sum_list (map (\<lambda>x. x * x) (replicate n (0::real))) = 0"
  by (simp add: sum_list_replicate)

lemma tokenize_a: "tokenize ''a'' = [''a'']" by code_simp
lemma tokenize_empty: "tokenize [] = []" by code_simp
lemma make_vocabulary_a: "make_vocabulary [''a''] = [(''a'', 0)]" by code_simp
lemma word_doc_counts_a: "word_doc_counts [''a''] = [(''a'', 1)]" by code_simp

lemma build_vocabulary_a:
  "build_vocabulary service_init [''a''] = \<lparr>vocabulary = [(''a'', 0)], idf_values = [''a'' \<mapsto> ln (1 / 2)]\<rparr>"
  by (simp add: build_vocabulary_def make_vocabulary_a make_idf_values_def word_doc_counts_a
      counter_get_def service_init_def)

lemma accumulate_a:
  "accumulate (build_vocabulary service_init [''a'']) ''a'' = (replicate 384 0)[0 := ln (1 / 2)]"
  by (simp add: accumulate_def tokenize_a Counter_def build_vocabulary_a svc_embedding_dim_def)

lemma norm_unit: "linalg_norm (1 # replicate 383 0) = 1"
  by (simp add: linalg_norm_def sum_list_replicate)

lemma norm_neg_unit: "linalg_norm (- 1 # replicate 383 0) = 1"
  by (simp add: linalg_norm_def sum_list_replicate)

lemma make_vocabulary_abc: "make_vocabulary [''a'', ''b'', ''c''] = [(''a'', 0), (''b'', 1), (''c'', 2)]"
  by code_simp

lemma word_doc_counts_abc: "word_doc_counts [''a'', ''b'', ''c''] = [(''a'', 1), (''b'', 1), (''c'', 1)]"
  by code_simp

lemma accumulate_abc:
  "accumulate (build_vocabulary service_init [''a'', ''b'', ''c'']) ''a'' = (replicate 384 0)[0 := ln (3 / 2)]"
  by (simp add: accumulate_def tokenize_a Counter_def build_vocabulary_def make_vocabulary_abc
      make_idf_values_def word_doc_counts_abc counter_get_def service_init_def svc_embedding_dim_def)


lemma vocabulary_mixed_case:
  "make_vocabulary [''C'', ''b'', ''A b B''] = [(''b'', 0), (''c'', 1), (''a'', 2)]"
  by code_simp

lemma all_words_mixed_case:
  "all_words [''C'', ''b'', ''A b B''] = [''c'', ''b'', ''a'', ''b'', ''b'']"
  by code_simp

section \<open>The chunker: windows, bounds, progress\<close>

lemma adjust_index_bounds: "0 \<le> n \<Longrightarrow> 0 \<le> adjust_index n i \<and> adjust_index n i \<le> n"
  by (auto simp: adjust_index_def)

lemma adjust_index_window:
  "0 \<le> n \<Longrightarrow> 0 \<le> c \<Longrightarrow> adjust_index n (s + c) - adjust_index n s \<le> c"
  by (auto simp: adjust_index_def)

lemma rfind_between_range:
  "rfind_between text c lo hi = - 1
   \<or> (int lo \<le> rfind_between text c lo hi \<and> rfind_between text c lo hi < int hi)"
  by (induction hi) auto

lemma rfind_range:
  "rfind text c s e = - 1
   \<or> (adjust_index (int (length text)) s \<le> rfind text c s e
      \<and> rfind text c s e < adjust_index (int (length text)) e)"
  using rfind_between_range [of "text" c "nat (adjust_index (int (length text)) s)"
      "nat (adjust_index (int (length text)) e)"]
    adjust_index_bounds [of "int (length text)" s] adjust_index_bounds [of "int (length text)" e]
  by (auto simp: rfind_def Let_def)

lemma length_py_slice:
  "int (length (py_slice text s e))
     \<le> max 0 (adjust_index (int (length text)) e - adjust_index (int (length text)) s)"
  by (simp add: py_slice_def Let_def)

lemma length_strip: "length (strip s) \<le> length s"
proof -
  have "length (strip s) \<le> length (dropWhile is_space s)"
    using length_dropWhile_le [of is_space "rev (dropWhile is_space s)"] by (simp add: strip_def)
  also have "\<dots> \<le> length s" by (rule length_dropWhile_le)
  finally show ?thesis .
qed

lemma chunk_end_cases:
  "chunk_end p text start = start + chunk_size p
   \<or> (chunk_end p text start = rfind text (CHR ''.'') start (start + chunk_size p) + 1
      \<and> start + chunk_size p - 100 < rfind text (CHR ''.'') start (start + chunk_size p))
   \<or> (chunk_end p text start = rfind text (CHR '' '') start (start + chunk_size p)
      \<and> start < rfind text (CHR '' '') start (start + chunk_size p))"
  by (simp add: chunk_end_def Let_def)

lemma chunk_end_bound:
  assumes n: "chunk_size p < int (length text)"
    and ov: "0 \<le> chunk_overlap p" "chunk_overlap p < chunk_size p"
    and st: "- 1 - chunk_overlap p \<le> start"
  shows "adjust_index (int (length text)) (chunk_end p text start)
           - adjust_index (int (length text)) start \<le> chunk_size p"
    and "- 1 \<le> chunk_end p text start"
proof -
  let ?n = "int (length text)"
  let ?cs = "chunk_size p"
  let ?e0 = "start + ?cs"
  have w: "adjust_index ?n ?e0 - adjust_index ?n start \<le> ?cs"
    using ov by (intro adjust_index_window) auto
  have a0: "0 \<le> adjust_index ?n start" using adjust_index_bounds [of ?n start] by simp
  have found: "adjust_index ?n r - adjust_index ?n start \<le> ?cs"
    if "adjust_index ?n start \<le> r" "r < adjust_index ?n ?e0" for r
  proof -
    have "0 \<le> r" using that a0 by simp
    then have "adjust_index ?n r \<le> r" by (simp add: adjust_index_def)
    then show ?thesis using that w by linarith
  qed
  have found1: "adjust_index ?n (r + 1) - adjust_index ?n start \<le> ?cs"
    if "adjust_index ?n start \<le> r" "r < adjust_index ?n ?e0" for r
  proof -
    have "0 \<le> r + 1" using that a0 by simp
    then have "adjust_index ?n (r + 1) \<le> r + 1" by (simp add: adjust_index_def)
    then show ?thesis using that w by linarith
  qed
  consider (hard) "chunk_end p text start = ?e0"
    | (dot) "chunk_end p text start = rfind text (CHR ''.'') start ?e0 + 1"
    | (space) "chunk_end p text start = rfind text (CHR '' '') start ?e0"
        "start < rfind text (CHR '' '') start ?e0"
    using chunk_end_cases [of p "text" start] by blast
  then show "adjust_index ?n (chunk_end p text start) - adjust_index ?n start \<le> ?cs"
  proof cases
    case hard
    then show ?thesis using w by simp
  next
    case dot
    show ?thesis
      using rfind_range [of "text" "CHR ''.''" start ?e0]
    proof
      assume "rfind text (CHR ''.'') start ?e0 = - 1"
      then have "chunk_end p text start = 0" using dot by simp
      then show ?thesis using a0 ov by (simp add: adjust_index_def)
    next
      assume "adjust_index ?n start \<le> rfind text (CHR ''.'') start ?e0
        \<and> rfind text (CHR ''.'') start ?e0 < adjust_index ?n ?e0"
      then show ?thesis using found1 dot by simp
    qed
  next
    case space
    show ?thesis
      using rfind_range [of "text" "CHR '' ''" start ?e0]
    proof
      assume m: "rfind text (CHR '' '') start ?e0 = - 1"
      then have "start < - 1" using space(2) by simp
      then show ?thesis using space(1) m n ov st by (simp add: adjust_index_def)
    next
      assume "adjust_index ?n start \<le> rfind text (CHR '' '') start ?e0
        \<and> rfind text (CHR '' '') start ?e0 < adjust_index ?n ?e0"
      then show ?thesis using found space(1) by simp
    qed
  qed
  show "- 1 \<le> chunk_end p text start"
    using chunk_end_cases [of p "text" start] rfind_range [of "text" "CHR ''.''" start ?e0]
      rfind_range [of "text" "CHR '' ''" start ?e0] a0 ov st
    by auto
qed

lemma chunk_length_bound:
  assumes n: "chunk_size p < int (length text)"
    and ov: "0 \<le> chunk_overlap p" "chunk_overlap p < chunk_size p"
    and st: "- 1 - chunk_overlap p \<le> start"
  shows "int (length (strip (py_slice text start (chunk_end p text start)))) \<le> chunk_size p"
proof -
  have "int (length (strip (py_slice text start (chunk_end p text start))))
      \<le> int (length (py_slice text start (chunk_end p text start)))"
    using length_strip by simp
  also have "\<dots> \<le> max 0 (adjust_index (int (length text)) (chunk_end p text start)
      - adjust_index (int (length text)) start)"
    by (rule length_py_slice)
  also have "\<dots> \<le> chunk_size p"
    using chunk_end_bound(1) [OF n ov st] ov by simp
  finally show ?thesis .
qed

lemma chunk_loop_bounded:
  assumes "chunk_loop p text start chunks = Some result"
  shows "chunk_size p < int (length text) \<and> 0 \<le> chunk_overlap p \<and> chunk_overlap p < chunk_size p
   \<and> - 1 - chunk_overlap p \<le> start \<and> (\<forall>c\<in>set chunks. int (length c) \<le> chunk_size p)
   \<longrightarrow> (\<forall>c\<in>set result. int (length c) \<le> chunk_size p)"
proof (rule chunk_loop.raw_induct [OF _ assms, where P = "\<lambda>p text start chunks result.
   chunk_size p < int (length text) \<and> 0 \<le> chunk_overlap p \<and> chunk_overlap p < chunk_size p
   \<and> - 1 - chunk_overlap p \<le> start \<and> (\<forall>c\<in>set chunks. int (length c) \<le> chunk_size p)
   \<longrightarrow> (\<forall>c\<in>set result. int (length c) \<le> chunk_size p)"], intro impI)
  fix loop p "text" start chunks result
  assume IH: "\<And>p text start chunks result. loop p text start chunks = Some result \<Longrightarrow>
     chunk_size p < int (length text) \<and> 0 \<le> chunk_overlap p \<and> chunk_overlap p < chunk_size p
     \<and> - 1 - chunk_overlap p \<le> start \<and> (\<forall>c\<in>set chunks. int (length c) \<le> chunk_size p)
     \<longrightarrow> (\<forall>c\<in>set result. int (length c) \<le> chunk_size p)"
    and body: "(if start < int (length text)
      then let end_pos = chunk_end p text start;
               chunk = strip (py_slice text start end_pos);
               chunks' = if chunk \<noteq> [] then chunks @ [chunk] else chunks;
               start' = end_pos - chunk_overlap p
           in if int (length text) \<le> start' then Some chunks'
              else loop p text start' chunks'
      else Some chunks) = Some result"
    and a: "chunk_size p < int (length text) \<and> 0 \<le> chunk_overlap p
      \<and> chunk_overlap p < chunk_size p \<and> - 1 - chunk_overlap p \<le> start
      \<and> (\<forall>c\<in>set chunks. int (length c) \<le> chunk_size p)"
  let ?e = "chunk_end p text start"
  let ?chunk = "strip (py_slice text start ?e)"
  let ?chunks' = "if ?chunk \<noteq> [] then chunks @ [?chunk] else chunks"
  have len: "int (length ?chunk) \<le> chunk_size p"
    using a by (intro chunk_length_bound) auto
  have c': "\<forall>c\<in>set ?chunks'. int (length c) \<le> chunk_size p"
    using a len by auto
  have e: "- 1 \<le> ?e" using a by (intro chunk_end_bound(2)) auto
  show "\<forall>c\<in>set result. int (length c) \<le> chunk_size p"
  proof (cases "start < int (length text)")
    case False
    then show ?thesis using body a by simp
  next
    case True
    show ?thesis
    proof (cases "int (length text) \<le> ?e - chunk_overlap p")
      case t: True
      then have "result = ?chunks'" using body True by (simp add: Let_def)
      then show ?thesis using c' by simp
    next
      case f: False
      then have "loop p text (?e - chunk_overlap p) ?chunks' = Some result"
        using body True by (simp add: Let_def)
      from IH [OF this] show ?thesis using a c' e by auto
    qed
  qed
qed

lemma chunk_text_bounded:
  assumes "chunk_text p text = Some result" "0 \<le> chunk_overlap p" "chunk_overlap p < chunk_size p"
  shows "\<forall>c\<in>set result. int (length c) \<le> chunk_size p"
proof (cases "int (length text) \<le> chunk_size p")
  case True
  then show ?thesis using assms(1) by (auto simp: chunk_text_def)
next
  case False
  then have "chunk_loop p text 0 [] = Some result" using assms(1) by (simp add: chunk_text_def)
  then show ?thesis using chunk_loop_bounded [of p "text" 0 "[]" result] False assms(2,3) by auto
qed

section \<open>The chunker: a run of the default configuration that does not return\<close>

lemma rfind_between_empty: "hi \<le> lo \<Longrightarrow> rfind_between text c lo hi = - 1"
  by (cases hi) auto

lemma rfind_between_prefix:
  "h \<le> length pre \<Longrightarrow> rfind_between (pre @ ys) c lo h = rfind_between pre c lo h"
  by (induction h) (auto simp: nth_append)

lemma rfind_between_skip_tail:
  "x \<noteq> c \<Longrightarrow> lo \<le> length pre \<Longrightarrow> length pre \<le> hi \<Longrightarrow> hi \<le> length pre + k \<Longrightarrow>
   rfind_between (pre @ replicate k x) c lo hi = rfind_between pre c lo (length pre)"
proof (induction hi)
  case 0
  then show ?case by simp
next
  case (Suc h)
  show ?case
  proof (cases "h < length pre")
    case True
    then have "Suc h = length pre" using Suc.prems by simp
    then show ?thesis using rfind_between_prefix [of "length pre" pre "replicate k x" c lo] by simp
  next
    case False
    then have "(pre @ replicate k x) ! h = x" using Suc.prems by (simp add: nth_append)
    then show ?thesis using Suc False by simp
  qed
qed

lemma long_token_length: "int (length long_token_text) = 1003"
  by (simp add: long_token_text_def)

lemma rfind_dot_first: "rfind long_token_text (CHR ''.'') 0 1000 = - 1"
proof -
  have "rfind_between (''a b'' @ replicate 1000 (CHR ''x'')) (CHR ''.'') 0 1000
      = rfind_between ''a b'' (CHR ''.'') 0 (length ''a b'')"
    by (rule rfind_between_skip_tail) simp_all
  also have "\<dots> = - 1" by code_simp
  finally show ?thesis
    by (simp add: rfind_def long_token_text_def adjust_index_def)
qed

lemma rfind_space_first: "rfind long_token_text (CHR '' '') 0 1000 = 1"
proof -
  have "rfind_between (''a b'' @ replicate 1000 (CHR ''x'')) (CHR '' '') 0 1000
      = rfind_between ''a b'' (CHR '' '') 0 (length ''a b'')"
    by (rule rfind_between_skip_tail) simp_all
  also have "\<dots> = 1" by code_simp
  finally show ?thesis
    by (simp add: rfind_def long_token_text_def adjust_index_def)
qed

lemma chunk_end_first: "chunk_end default_processor long_token_text 0 = 1"
  by (simp add: chunk_end_def default_processor_def long_token_length rfind_dot_first rfind_space_first)

lemma rfind_wrapped:
  "- 901 \<le> start \<Longrightarrow> start \<le> - 2 \<Longrightarrow> rfind long_token_text c start (start + 1000) = - 1"
  by (simp add: rfind_def long_token_length adjust_index_def rfind_between_empty)

lemma chunk_end_wrapped:
  "- 901 \<le> start \<Longrightarrow> start \<le> - 2 \<Longrightarrow> chunk_end default_processor long_token_text start = - 1"
  by (simp add: chunk_end_def default_processor_def long_token_length rfind_wrapped)

lemma default_loop_stuck:
  assumes "chunk_loop p text start chunks = Some result"
  shows "\<not> (p = default_processor \<and> text = long_token_text \<and> start = - 201)"
proof (rule chunk_loop.raw_induct [OF _ assms, where P = "\<lambda>p text start chunks result.
   \<not> (p = default_processor \<and> text = long_token_text \<and> start = - 201)"], rule notI)
  fix loop p "text" start chunks result
  assume IH: "\<And>p text start chunks result. loop p text start chunks = Some result \<Longrightarrow>
     \<not> (p = default_processor \<and> text = long_token_text \<and> start = - 201)"
    and body: "(if start < int (length text)
      then let end_pos = chunk_end p text start;
               chunk = strip (py_slice text start end_pos);
               chunks' = if chunk \<noteq> [] then chunks @ [chunk] else chunks;
               start' = end_pos - chunk_overlap p
           in if int (length text) \<le> start' then Some chunks'
              else loop p text start' chunks'
      else Some chunks) = Some result"
    and a: "p = default_processor \<and> text = long_token_text \<and> start = - 201"
  have e: "chunk_end default_processor long_token_text (- 201) = - 1"
    by (rule chunk_end_wrapped) simp_all
  have ov: "chunk_overlap default_processor = 200" by (simp add: default_processor_def)
  obtain chunks' where "loop p text (- 201) chunks' = Some result"
    using body a by (simp add: e ov long_token_length Let_def)
  from IH [OF this] show False using a by blast
qed

lemma default_chunking_diverges: "chunk_text default_processor long_token_text = None"
proof -
  have ov: "chunk_overlap default_processor = 200" "chunk_size default_processor = 1000"
    by (simp_all add: default_processor_def)
  have e2: "chunk_end default_processor long_token_text (- 199) = - 1"
    by (rule chunk_end_wrapped) simp_all
  have "\<exists>c1. chunk_loop default_processor long_token_text 0 []
      = chunk_loop default_processor long_token_text (- 199) c1"
    by (subst chunk_loop.simps, simp add: chunk_end_first ov long_token_length Let_def, blast)
  then obtain c1 where 1: "chunk_loop default_processor long_token_text 0 []
      = chunk_loop default_processor long_token_text (- 199) c1" ..
  have "\<exists>c2. chunk_loop default_processor long_token_text (- 199) c1
      = chunk_loop default_processor long_token_text (- 201) c2"
    by (subst chunk_loop.simps, simp add: e2 ov long_token_length Let_def, blast)
  then obtain c2 where 2: "chunk_loop default_processor long_token_text (- 199) c1
      = chunk_loop default_processor long_token_text (- 201) c2" ..
  have "chunk_loop default_processor long_token_text (- 201) c2 = None"
    using default_loop_stuck [of default_processor long_token_text "- 201" c2]
    by (cases "chunk_loop default_processor long_token_text (- 201) c2") auto
  then show ?thesis by (simp add: chunk_text_def ov long_token_length 1 2)
qed

section \<open>Examples of the search\<close>

lemma norm_exact_10: "linalg_norm32 exact_ops [Fin 1, Fin 0] = Fin 1"
  by (simp add: linalg_norm32_def exact_ops_def)

lemma norm_exact_01: "linalg_norm32 exact_ops [Fin 0, Fin 1] = Fin 1"
  by (simp add: linalg_norm32_def exact_ops_def)

lemma norm_exact_1: "linalg_norm32 exact_ops [Fin 1] = Fin 1"
  by (simp add: linalg_norm32_def exact_ops_def)

lemma query_unit_exact_10: "query_unit exact_ops [Fin 1, Fin 0] = [Fin 1, Fin 0]"
  by (simp add: query_unit_def Let_def) (simp add: exact_ops_def norm_exact_10 [unfolded exact_ops_def])

lemma cosine_exact_10_10: "cosine_similarity exact_ops [Fin 1, Fin 0] [Fin 1, Fin 0] = Fin 1"
  by (simp add: cosine_similarity_def norm_exact_10 query_unit_exact_10 dot32_def)
     (simp add: exact_ops_def)

lemma cosine_exact_10_01: "cosine_similarity exact_ops [Fin 1, Fin 0] [Fin 0, Fin 1] = Fin 0"
  by (simp add: cosine_similarity_def norm_exact_01 query_unit_exact_10 dot32_def)
     (simp add: exact_ops_def)

lemma search_try_mismatch_example:
  "search_try exact_ops store_ab (FloatArray [Fin 1]) 5 = Inl (ValueError ''shapes not aligned'')"
  by (simp add: search_try_def astype_float32_def normalize_query_total norm_exact_1
      store_ab_def doc_similarity_cases norm_exact_10)

section \<open>Claims about loading and replacing\<close>

text \<open>
  C2, at an input where the code departs from it. \<^verbatim>\<open>add_documents\<close> is called with two
  documents and two arrays, the second of which cannot be converted to float32. The
  lengths agree, line 71 assigns the two documents, the conversion of line 72 raises,
  and the handler raises again without restoring anything: the call fails and leaves
  two documents next to no embeddings. On a store that held two documents and two
  vectors, a failing call with one document leaves one document next to the two old
  vectors. The handler of the loader, in the same class, empties both sequences.
\<close>

theorem add_documents_failure_misaligns:
  "add_documents ops (store_init ops 384 NoFile) [doc_a, doc_b] [FloatArray [Fin 1, Fin 0], OtherArray]
     = (Inl (ValueError ''could not convert string to float''),
        \<lparr>embedding_dim = 384, documents = [doc_a, doc_b], embeddings = []\<rparr>)
   \<and> add_documents ops store_ab [doc_b] [OtherArray]
     = (Inl (ValueError ''could not convert string to float''),
        \<lparr>embedding_dim = 2, documents = [doc_b], embeddings = [[Fin 1, Fin 0], [Fin 0, Fin 1]]\<rparr>)"
  by (simp add: add_documents_def astype_float32_def store_init_def load_existing_data_def
      store_ab_def)

text \<open>
  C4. When the number of documents differs from the number of embeddings,
  \<^verbatim>\<open>add_documents\<close> raises its \<^verbatim>\<open>ValueError\<close> (the specification's DimensionMismatch) and the
  store after the call is the store before it.
\<close>

theorem add_documents_mismatch:
  "length docs \<noteq> length embs \<Longrightarrow>
   add_documents ops s docs embs =
     (Inl (ValueError ''Number of documents must match number of embeddings''), s)"
  by (simp add: add_documents_def)

theorem add_documents_mismatch_witness:
  "length [doc_a, doc_b, doc_a] \<noteq> length [FloatArray [Fin 1, Fin 0], FloatArray [Fin 0, Fin 1]]
   \<and> add_documents exact_ops store_ab [doc_a, doc_b, doc_a]
        [FloatArray [Fin 1, Fin 0], FloatArray [Fin 0, Fin 1]] =
       (Inl (ValueError ''Number of documents must match number of embeddings''), store_ab)"
proof -
  have h: "length [doc_a, doc_b, doc_a]
      \<noteq> length [FloatArray [Fin 1, Fin 0], FloatArray [Fin 0, Fin 1]]" by simp
  show ?thesis using h add_documents_mismatch [OF h, of exact_ops store_ab] by simp
qed

text \<open>
  C5. Loading a snapshot whose list of chunk records and list of embedding vectors have
  different lengths leaves both sequences of the store empty, whatever the store held
  before and whatever the records contain.
\<close>

theorem load_length_mismatch_empty:
  "length (get_or_empty (snap_documents data)) \<noteq> length (get_or_empty (snap_embeddings data)) \<Longrightarrow>
   documents (load_existing_data ops s (Snapshot data)) = []
   \<and> embeddings (load_existing_data ops s (Snapshot data)) = []"
  by (simp add: load_mismatch_cleared cleared_def)

theorem load_length_mismatch_empty_witness:
  "length (get_or_empty (snap_documents
      \<lparr>snap_documents = Some (replicate 5 (document_to_data doc_a)),
       snap_embeddings = Some (replicate 4 (Some [Fin 1, Fin 0]))\<rparr>))
   \<noteq> length (get_or_empty (snap_embeddings
      \<lparr>snap_documents = Some (replicate 5 (document_to_data doc_a)),
       snap_embeddings = Some (replicate 4 (Some [Fin 1, Fin 0]))\<rparr>))
   \<and> documents (load_existing_data exact_ops store_ab (Snapshot
      \<lparr>snap_documents = Some (replicate 5 (document_to_data doc_a)),
       snap_embeddings = Some (replicate 4 (Some [Fin 1, Fin 0]))\<rparr>)) = []
   \<and> embeddings (load_existing_data exact_ops store_ab (Snapshot
      \<lparr>snap_documents = Some (replicate 5 (document_to_data doc_a)),
       snap_embeddings = Some (replicate 4 (Some [Fin 1, Fin 0]))\<rparr>)) = []"
proof -
  have h: "length (get_or_empty (snap_documents
      \<lparr>snap_documents = Some (replicate 5 (document_to_data doc_a)),
       snap_embeddings = Some (replicate 4 (Some [Fin 1, Fin 0]))\<rparr>))
   \<noteq> length (get_or_empty (snap_embeddings
      \<lparr>snap_documents = Some (replicate 5 (document_to_data doc_a)),
       snap_embeddings = Some (replicate 4 (Some [Fin 1, Fin 0]))\<rparr>))"
    by (simp add: get_or_empty_def)
  show ?thesis using h load_length_mismatch_empty [OF h, of exact_ops store_ab] by blast
qed

section \<open>Claims about search\<close>

text \<open>
  C1. A search on an empty store returns the empty list. On a store whose documents and
  embeddings are aligned, for a query of the dimension of the stored vectors and a count
  \<open>k \<ge> 0\<close>, when no similarity is NaN, the search returns the documents of \<open>min k n\<close>
  distinct candidates (\<open>n\<close> the store size), each ranking before the next and before every
  candidate left out; a candidate ranks before another when its cosine similarity to the
  query, as the arithmetic of the code computes it, is larger, or equal with an earlier
  insertion index. With \<open>k \<ge> n\<close> these are all stored documents, sorted.
\<close>

theorem search_ranking:
  "(embeddings s = [] \<longrightarrow> search ops s query k = Inr [])
   \<and> (length (documents s) = length (embeddings s)
        \<and> (\<forall>d\<in>set (embeddings s). length d = length q)
        \<and> 0 \<le> k
        \<and> (\<forall>d\<in>set (embeddings s). cosine_similarity ops q d \<noteq> NaN) \<longrightarrow>
      (\<exists>idxs. search ops s (FloatArray q) k = Inr (map (\<lambda>i. documents s ! i) idxs)
         \<and> length idxs = min (nat k) (length (embeddings s))
         \<and> distinct idxs
         \<and> (\<forall>i\<in>set idxs. i < length (embeddings s))
         \<and> sorted_wrt (ranks_before ops q (embeddings s)) idxs
         \<and> (\<forall>i\<in>set idxs. \<forall>j<length (embeddings s).
               j \<notin> set idxs \<longrightarrow> ranks_before ops q (embeddings s) i j)))"
proof (intro conjI impI)
  assume "embeddings s = []"
  then show "search ops s query k = Inr []" by (simp add: search_def)
next
  assume a: "length (documents s) = length (embeddings s)
        \<and> (\<forall>d\<in>set (embeddings s). length d = length q)
        \<and> 0 \<le> k
        \<and> (\<forall>d\<in>set (embeddings s). cosine_similarity ops q d \<noteq> NaN)"
  let ?es = "embeddings s"
  let ?idxs = "take (nat k) (ranked ops q ?es)"
  have 1: "search ops s (FloatArray q) k = Inr (map (\<lambda>i. documents s ! i) ?idxs)"
  proof (cases "?es = []")
    case True
    then show ?thesis by (simp add: search_def ranked_def sort_reverse_def)
  next
    case False
    have "search_try ops s (FloatArray q) k = Inr (map (\<lambda>i. documents s ! i) ?idxs)"
      using a by (intro search_try_ranked) auto
    then show ?thesis using False by (simp add: search_def)
  qed
  have 2: "length ?idxs = min (nat k) (length ?es)" by (simp add: ranked_length)
  have 3: "distinct ?idxs" by (simp add: ranked_distinct)
  have 4: "\<forall>i\<in>set ?idxs. i < length ?es"
    using ranked_set [of ops q ?es] by (auto dest!: in_set_takeD)
  have srt: "sorted_wrt (ranks_before ops q ?es) (ranked ops q ?es)"
    using a by (intro ranked_sorted) auto
  have 5: "sorted_wrt (ranks_before ops q ?es) ?idxs"
    using srt by (rule sorted_wrt_take)
  have 6: "\<forall>i\<in>set ?idxs. \<forall>j<length ?es. j \<notin> set ?idxs \<longrightarrow> ranks_before ops q ?es i j"
  proof (intro ballI allI impI)
    fix i j assume i: "i \<in> set ?idxs" and j: "j < length ?es" "j \<notin> set ?idxs"
    have "j \<in> set (ranked ops q ?es)" using j(1) by (simp add: ranked_set)
    then have "j \<in> set (take (nat k) (ranked ops q ?es) @ drop (nat k) (ranked ops q ?es))"
      by simp
    then have jd: "j \<in> set (drop (nat k) (ranked ops q ?es))"
      using j(2) by (simp del: append_take_drop_id)
    have "sorted_wrt (ranks_before ops q ?es)
        (take (nat k) (ranked ops q ?es) @ drop (nat k) (ranked ops q ?es))"
      using srt by simp
    then show "ranks_before ops q ?es i j"
      using i jd by (simp add: sorted_wrt_append del: append_take_drop_id)
  qed
  show "\<exists>idxs. search ops s (FloatArray q) k = Inr (map (\<lambda>i. documents s ! i) idxs)
         \<and> length idxs = min (nat k) (length (embeddings s))
         \<and> distinct idxs
         \<and> (\<forall>i\<in>set idxs. i < length (embeddings s))
         \<and> sorted_wrt (ranks_before ops q (embeddings s)) idxs
         \<and> (\<forall>i\<in>set idxs. \<forall>j<length (embeddings s).
               j \<notin> set idxs \<longrightarrow> ranks_before ops q (embeddings s) i j)"
    using 1 2 3 4 5 6 by blast
qed

text \<open>The theorem at the two-document store, the query \<open>[1, 0]\<close> and \<open>k = 1\<close>: it leaves
  only the first document as a possible answer.\<close>

theorem search_ranking_witness:
  "length (documents store_ab) = length (embeddings store_ab) \<and> (0::int) \<le> 1
   \<and> cosine_similarity exact_ops [Fin 1, Fin 0] [Fin 1, Fin 0] = Fin 1
   \<and> cosine_similarity exact_ops [Fin 1, Fin 0] [Fin 0, Fin 1] = Fin 0
   \<and> search exact_ops store_ab (FloatArray [Fin 1, Fin 0]) 1 = Inr [doc_a]"
proof -
  have al: "length (documents store_ab) = length (embeddings store_ab)"
    by (simp add: store_ab_def)
  have dims: "\<forall>d\<in>set (embeddings store_ab). length d = length [Fin 1, Fin 0]"
    by (simp add: store_ab_def)
  have nonan: "\<forall>d\<in>set (embeddings store_ab). cosine_similarity exact_ops [Fin 1, Fin 0] d \<noteq> NaN"
    by (simp add: store_ab_def cosine_exact_10_10 cosine_exact_10_01)
  from search_ranking [of store_ab exact_ops "FloatArray [Fin 1, Fin 0]" 1 "[Fin 1, Fin 0]"]
    al dims nonan
  obtain idxs where r: "search exact_ops store_ab (FloatArray [Fin 1, Fin 0]) 1
        = Inr (map (\<lambda>i. documents store_ab ! i) idxs)"
    and len: "length idxs = min (nat 1) (length (embeddings store_ab))"
    and bound: "\<forall>i\<in>set idxs. i < length (embeddings store_ab)"
    and top: "\<forall>i\<in>set idxs. \<forall>j<length (embeddings store_ab).
               j \<notin> set idxs \<longrightarrow> ranks_before exact_ops [Fin 1, Fin 0] (embeddings store_ab) i j"
    by auto
  from len obtain i where idxs: "idxs = [i]"
    by (cases idxs) (auto simp: store_ab_def)
  have "i < 2" using bound idxs by (simp add: store_ab_def)
  moreover have "i \<noteq> 1"
  proof
    assume "i = 1"
    then have "ranks_before exact_ops [Fin 1, Fin 0] (embeddings store_ab) 1 0"
      using top idxs by (simp add: store_ab_def)
    then show False
      by (simp add: ranks_before_def store_ab_def cosine_exact_10_10 cosine_exact_10_01)
  qed
  ultimately have "i = 0" by arith
  then have "search exact_ops store_ab (FloatArray [Fin 1, Fin 0]) 1 = Inr [doc_a]"
    using r idxs by (simp add: store_ab_def)
  then show ?thesis using al by (simp add: cosine_exact_10_10 cosine_exact_10_01)
qed

text \<open>
  C9. The search never divides by a zero norm. A stored vector whose norm is zero gets
  similarity exactly 0 whatever the query. A query whose norm is zero, that is a query
  of zeros, is left as it is, and its similarity to a stored vector of its dimension is
  0 (the normalized stored vector being finite).
\<close>

theorem search_zero_norm_safe:
  "search_try ops s query k \<noteq> Inl DivideByZero
   \<and> (linalg_norm32 ops d = Fin 0 \<longrightarrow> doc_similarity ops q' d = Inr (Fin 0))
   \<and> ((\<forall>x\<in>set q. x = Fin 0) \<longrightarrow>
        linalg_norm32 ops q = Fin 0
        \<and> normalize_query ops q = Inr q
        \<and> (length d' = length q
             \<and> (\<forall>y\<in>set d'. is_fin (quot_op ops y (linalg_norm32 ops d')))
           \<longrightarrow> doc_similarity ops q d' = Inr (Fin 0)))"
proof (intro conjI impI)
  show "search_try ops s query k \<noteq> Inl DivideByZero"
    using similarities_loop_no_division
    by (auto simp: search_try_def normalize_query_total astype_float32_def
        split: sum.splits ndarray.splits)
next
  assume "linalg_norm32 ops d = Fin 0"
  then show "doc_similarity ops q' d = Inr (Fin 0)" by (simp add: doc_similarity_cases)
next
  assume "\<forall>x\<in>set q. x = Fin 0"
  then show "linalg_norm32 ops q = Fin 0" by (rule linalg_norm32_zeros)
next
  assume "\<forall>x\<in>set q. x = Fin 0"
  then have "linalg_norm32 ops q = Fin 0" by (rule linalg_norm32_zeros)
  then show "normalize_query ops q = Inr q" by (simp add: normalize_query_total)
next
  assume z: "\<forall>x\<in>set q. x = Fin 0"
    and d: "length d' = length q \<and> (\<forall>y\<in>set d'. is_fin (quot_op ops y (linalg_norm32 ops d')))"
  then have "dot32 ops q (map (\<lambda>x. quot_op ops x (linalg_norm32 ops d')) d') = Fin 0"
    by (simp add: dot32_def)
  then show "doc_similarity ops q d' = Inr (Fin 0)"
    using d by (simp add: doc_similarity_cases)
qed

theorem search_zero_norm_safe_witness:
  "linalg_norm32 exact_ops [Fin 0, Fin 0] = Fin 0
   \<and> doc_similarity exact_ops [Fin 1, Fin 0] [Fin 0, Fin 0] = Inr (Fin 0)
   \<and> normalize_query exact_ops [Fin 0, Fin 0] = Inr [Fin 0, Fin 0]
   \<and> length [Fin 0, Fin 1] = length [Fin 0, Fin 0 :: fp]
   \<and> is_fin (quot_op exact_ops (Fin 0) (linalg_norm32 exact_ops [Fin 0, Fin 1]))
   \<and> is_fin (quot_op exact_ops (Fin 1) (linalg_norm32 exact_ops [Fin 0, Fin 1]))
   \<and> doc_similarity exact_ops [Fin 0, Fin 0] [Fin 0, Fin 1] = Inr (Fin 0)"
proof -
  have z: "\<forall>x\<in>set [Fin 0, Fin 0]. x = Fin 0" by simp
  have n: "linalg_norm32 exact_ops [Fin 0, Fin 0] = Fin 0" by (simp add: linalg_norm32_def)
  have f: "\<forall>y\<in>set [Fin 0, Fin 1]. is_fin (quot_op exact_ops y (linalg_norm32 exact_ops [Fin 0, Fin 1]))"
    by (simp add: exact_ops_def)
  show ?thesis
    using z n f
      search_zero_norm_safe [of exact_ops store_ab "FloatArray [Fin 0, Fin 0]" 1
        "[Fin 0, Fin 0]" "[Fin 1, Fin 0]" "[Fin 0, Fin 0]" "[Fin 0, Fin 1]"]
    by simp
qed

text \<open>
  C10. The search returns a list and raises nothing: every exception of its body becomes
  the empty list, and this is what a query gets whose dimension differs from that of a
  stored vector of positive norm, or that cannot be converted to float32.
\<close>

theorem search_never_raises:
  "(\<exists>r. search ops s query k = Inr r)
   \<and> (search_try ops s query k = Inl e \<longrightarrow> search ops s query k = Inr [])
   \<and> ((\<exists>d\<in>set (embeddings s). gt_zero (linalg_norm32 ops d) \<and> length d \<noteq> length q) \<longrightarrow>
        search ops s (FloatArray q) k = Inr [])
   \<and> search ops s OtherArray k = Inr []"
proof (intro conjI impI)
  show "\<exists>r. search ops s query k = Inr r"
    by (simp add: search_def split: sum.splits)
next
  assume "search_try ops s query k = Inl e"
  then show "search ops s query k = Inr []" by (simp add: search_def)
next
  assume m: "\<exists>d\<in>set (embeddings s). gt_zero (linalg_norm32 ops d) \<and> length d \<noteq> length q"
  have "length (query_unit ops q) = length q" by (rule length_query_unit)
  then have "\<exists>d\<in>set (embeddings s). gt_zero (linalg_norm32 ops d) \<and> length d \<noteq> length (query_unit ops q)"
    using m by simp
  then obtain e' where "similarities_loop ops (query_unit ops q) (embeddings s) 0 = Inl e'"
    using similarities_loop_fails by blast
  then have "search_try ops s (FloatArray q) k = Inl e'"
    by (simp add: search_try_def astype_float32_def normalize_query_unit)
  then show "search ops s (FloatArray q) k = Inr []" by (simp add: search_def)
next
  show "search ops s OtherArray k = Inr []"
    by (simp add: search_def search_try_def astype_float32_def)
qed

theorem search_never_raises_witness:
  "search_try exact_ops store_ab (FloatArray [Fin 1]) 5 = Inl (ValueError ''shapes not aligned'')
   \<and> gt_zero (linalg_norm32 exact_ops [Fin 1, Fin 0]) \<and> length [Fin 1, Fin 0 :: fp] \<noteq> length [Fin 1 :: fp]
   \<and> search exact_ops store_ab (FloatArray [Fin 1]) 5 = Inr []"
proof -
  have t: "search_try exact_ops store_ab (FloatArray [Fin 1]) 5 = Inl (ValueError ''shapes not aligned'')"
    by (rule search_try_mismatch_example)
  have d: "\<exists>d\<in>set (embeddings store_ab). gt_zero (linalg_norm32 exact_ops d) \<and> length d \<noteq> length [Fin 1 :: fp]"
    by (simp add: store_ab_def norm_exact_10)
  show ?thesis
    using t d search_never_raises [of exact_ops store_ab "FloatArray [Fin 1]" 5
        "ValueError ''shapes not aligned''" "[Fin 1]"]
    by (simp add: norm_exact_10)
qed

section \<open>Claims about the embedder\<close>

text \<open>
  C6, at an input where the code departs from it. The reference set is the single text
  \<open>a\<close>: the vocabulary is \<open>a \<mapsto> 0\<close> and the IDF of \<open>a\<close> is \<open>ln (1 / 2)\<close>, negative. The
  text \<open>a\<close> has a recognized term and its accumulated vector has a nonzero norm, yet the
  test \<^verbatim>\<open>np.sum(embedding) > 0\<close> fails and the call takes the branch the source comments
  as "Random embedding for unknown texts": the result is the normalized draw.
\<close>

theorem embed_fallback_for_known_term:
  "recognized_terms (build_vocabulary service_init [''a'']) ''a'' = [''a'']
   \<and> linalg_norm (accumulate (build_vocabulary service_init [''a'']) ''a'') \<noteq> 0
   \<and> embedding_branch (build_vocabulary service_init [''a'']) ''a'' = Fallback
   \<and> text_to_embedding (build_vocabulary service_init [''a'']) (1 # replicate 383 0) ''a''
       = Inr (1 # replicate 383 0)"
proof -
  let ?svc = "build_vocabulary service_init [''a'']"
  have 1: "recognized_terms ?svc ''a'' = [''a'']"
    by (simp add: recognized_terms_def build_vocabulary_a tokenize_a)
  have s: "sum_list (accumulate ?svc ''a'') = ln (1 / 2)"
    by (simp add: accumulate_a sum_list_update_real sum_list_zeros)
  have l: "ln (1 / 2 :: real) < 0" by simp
  have "sum_list (map (\<lambda>x. x * x) (accumulate ?svc ''a'')) = ln (1 / 2) * ln (1 / 2)"
    by (simp add: accumulate_a map_update sum_list_update_real sum_list_zeros)
  then have 2: "linalg_norm (accumulate ?svc ''a'') \<noteq> 0"
    using l by (simp add: linalg_norm_def)
  have 3: "embedding_branch ?svc ''a'' = Fallback"
    using l by (simp add: embedding_branch_def s)
  have 4: "text_to_embedding ?svc (1 # replicate 383 0) ''a'' = Inr (1 # replicate 383 0)"
    using l by (simp add: text_to_embedding_def s np_divide_def norm_unit)
  show ?thesis using 1 2 3 4 by blast
qed


text \<open>
  C7, as the code has it. For a text whose accumulated vector has a positive component
  sum, the embedding is one vector of dimension 384 and norm 1, the same for every state
  of the random generator. For a text with no recognized vocabulary term the embedding
  is the normalized draw of the generator.
\<close>

theorem embedding_deterministic_when_normalized:
  "(0 < sum_list (accumulate svc text) \<longrightarrow>
      (\<exists>v. length v = 384 \<and> linalg_norm v = 1 \<and> (\<forall>draw. text_to_embedding svc draw text = Inr v)))
   \<and> (recognized_terms svc text = [] \<longrightarrow>
      (\<forall>draw. text_to_embedding svc draw text = np_divide draw (linalg_norm draw)))"
proof (intro conjI impI)
  assume pos: "0 < sum_list (accumulate svc text)"
  let ?e = "accumulate svc text"
  let ?v = "map (\<lambda>x. x / linalg_norm ?e) ?e"
  have n: "0 < linalg_norm ?e" using pos by (rule sum_pos_norm_pos)
  have "length ?v = 384" by (simp add: length_accumulate)
  moreover have "linalg_norm ?v = 1" using n by (rule linalg_norm_normalized)
  moreover have "\<forall>draw. text_to_embedding svc draw text = Inr ?v"
    using pos n by (simp add: text_to_embedding_def np_divide_def Let_def)
  ultimately show "\<exists>v. length v = 384 \<and> linalg_norm v = 1 \<and> (\<forall>draw. text_to_embedding svc draw text = Inr v)"
    by blast
next
  assume "recognized_terms svc text = []"
  then have "accumulate svc text = replicate svc_embedding_dim 0"
    by (rule accumulate_unrecognized)
  then show "\<forall>draw. text_to_embedding svc draw text = np_divide draw (linalg_norm draw)"
    by (simp add: text_to_embedding_def Let_def sum_list_zeros)
qed

theorem embedding_deterministic_when_normalized_witness:
  "0 < sum_list (accumulate (build_vocabulary service_init [''a'', ''b'', ''c'']) ''a'')
   \<and> text_to_embedding (build_vocabulary service_init [''a'', ''b'', ''c'']) (1 # replicate 383 0) ''a''
     = text_to_embedding (build_vocabulary service_init [''a'', ''b'', ''c'']) (- 1 # replicate 383 0) ''a''
   \<and> recognized_terms (build_vocabulary service_init [''a'', ''b'', ''c'']) ''d'' = []
   \<and> text_to_embedding (build_vocabulary service_init [''a'', ''b'', ''c'']) (replicate 384 1) ''d''
     = np_divide (replicate 384 1) (linalg_norm (replicate 384 1))"
proof -
  let ?svc = "build_vocabulary service_init [''a'', ''b'', ''c'']"
  have "sum_list (accumulate ?svc ''a'') = ln (3 / 2)"
    by (simp add: accumulate_abc sum_list_update_real sum_list_zeros)
  then have p: "0 < sum_list (accumulate ?svc ''a'')" by simp
  have n: "recognized_terms ?svc ''d'' = []"
    by (simp add: recognized_terms_def build_vocabulary_def make_vocabulary_abc tokenize_d)
  from p embedding_deterministic_when_normalized [of ?svc "''a''"]
  obtain v where "\<forall>draw. text_to_embedding ?svc draw ''a'' = Inr v" by blast
  then have "text_to_embedding ?svc (1 # replicate 383 0) ''a''
      = text_to_embedding ?svc (- 1 # replicate 383 0) ''a''" by simp
  moreover have "text_to_embedding ?svc (replicate 384 1) ''d''
     = np_divide (replicate 384 1) (linalg_norm (replicate 384 1))"
    using n embedding_deterministic_when_normalized [of ?svc "''d''"] by blast
  ultimately show ?thesis using p n by blast
qed

text \<open>Where C7 as stated fails: the empty text, embedded twice with the same (empty)
  vocabulary and IDF table and two different draws, gets two different vectors.\<close>

theorem embedding_nondeterministic_counterexample:
  "text_to_embedding service_init (1 # replicate 383 0) [] = Inr (1 # replicate 383 0)
   \<and> text_to_embedding service_init (- 1 # replicate 383 0) [] = Inr (- 1 # replicate 383 0)
   \<and> text_to_embedding service_init (1 # replicate 383 0) []
       \<noteq> text_to_embedding service_init (- 1 # replicate 383 0) []"
proof -
  have "accumulate service_init [] = replicate 384 0"
    by (simp add: accumulate_def tokenize_empty Counter_def svc_embedding_dim_def)
  then show ?thesis
    by (simp add: text_to_embedding_def np_divide_def norm_unit norm_neg_unit sum_list_zeros)
qed



text \<open>
  C8. The tokens are the maximal runs of word characters of the lowercased texts, and
  no token holds an uppercase letter. The vocabulary holds \<open>min 1000 n\<close> distinct tokens of the reference set, \<open>n\<close> the number of
  its distinct tokens, with the indices \<open>0, \<dots>, min 1000 n - 1\<close> in this order; a token
  with a smaller index occurs at least as often in the whole reference set as one with
  a larger index, and every token kept occurs at least as often as every token left out.
\<close>

theorem build_vocabulary_most_frequent:
  "all_words texts = concat (map (\<lambda>text. word_runs (map py_lower text)) texts)
   \<and> (\<forall>w\<in>set (all_words texts). \<forall>c\<in>set w. \<not> is_upper_char c)
   \<and> map snd (vocabulary (build_vocabulary svc texts)) = [0..<min 1000 (card (set (all_words texts)))]
   \<and> distinct (map fst (vocabulary (build_vocabulary svc texts)))
   \<and> fst ` set (vocabulary (build_vocabulary svc texts)) \<subseteq> set (all_words texts)
   \<and> (\<forall>w1 i w2 j. (w1, i) \<in> set (vocabulary (build_vocabulary svc texts))
          \<and> (w2, j) \<in> set (vocabulary (build_vocabulary svc texts)) \<and> i < j
          \<longrightarrow> count_list (all_words texts) w2 \<le> count_list (all_words texts) w1)
   \<and> (\<forall>v\<in>fst ` set (vocabulary (build_vocabulary svc texts)). \<forall>w\<in>set (all_words texts).
          w \<notin> fst ` set (vocabulary (build_vocabulary svc texts))
          \<longrightarrow> count_list (all_words texts) w \<le> count_list (all_words texts) v)"
proof -
  let ?W = "all_words texts"
  let ?C = "Counter ?W"
  let ?mc = "most_common ?C (min 1000 (length ?C))"
  let ?vocab = "vocabulary (build_vocabulary svc texts)"
  have vocab: "?vocab = zip (map fst ?mc) [0..<length ?mc]"
    by (simp add: vocabulary_build make_vocabulary_eq enumerate_words_def)
  note mc = most_common_props [OF Counter_distinct, of ?W "min 1000 (length ?C)"]
  have len: "length ?mc = min 1000 (card (set ?W))"
    using mc(1) by (simp add: Counter_length)
  have fsts: "map fst ?vocab = map fst ?mc" by (simp add: vocab)
  have cnt: "snd x = count_list ?W (fst x)" if "x \<in> set ?mc" for x
  proof -
    have "(fst x, snd x) \<in> set ?C" using that mc(3) by auto
    then show ?thesis by (rule Counter_count)
  qed
  have 1: "map snd ?vocab = [0..<min 1000 (card (set ?W))]"
    using len by (simp add: vocab)
  have 2: "distinct (map fst ?vocab)" using mc(2) by (simp add: fsts)
  have fset: "fst ` set ?vocab = fst ` set ?mc"
    using arg_cong [OF fsts, of set] by simp
  have 3: "fst ` set ?vocab \<subseteq> set ?W"
    using mc(3) Counter_keys [of ?W] unfolding fset by blast
  have 4: "count_list ?W w2 \<le> count_list ?W w1"
    if "(w1, i) \<in> set ?vocab \<and> (w2, j) \<in> set ?vocab \<and> i < j" for w1 i w2 j
  proof -
    have i: "i < length ?mc" "w1 = fst (?mc ! i)"
      using that by (auto simp: vocab in_set_zip)
    have j: "j < length ?mc" "w2 = fst (?mc ! j)"
      using that by (auto simp: vocab in_set_zip)
    have "snd (?mc ! j) \<le> snd (?mc ! i)"
      using mc(4) that j(1) by (simp add: sorted_wrt_iff_nth_less)
    then show ?thesis using cnt [of "?mc ! i"] cnt [of "?mc ! j"] i j by simp
  qed
  have 5: "count_list ?W w \<le> count_list ?W v"
    if v: "v \<in> fst ` set ?vocab" and w: "w \<in> set ?W" "w \<notin> fst ` set ?vocab" for v w
  proof -
    obtain x where x: "x \<in> set ?mc" "v = fst x" using v unfolding fset by auto
    obtain c where c: "(w, c) \<in> set ?C" using w(1) Counter_keys [of ?W] by force
    have "(w, c) \<notin> set ?mc" using w(2) unfolding fset by force
    then have "snd (w, c) \<le> snd x" using mc(5) x(1) c by blast
    moreover have "c = count_list ?W w" using c by (rule Counter_count)
    ultimately show ?thesis using cnt [OF x(1)] x(2) by simp
  qed
  have "tokenize = (\<lambda>text. word_runs (map py_lower text))"
    by (rule ext) (rule tokenize_runs)
  then have 0: "all_words texts = concat (map (\<lambda>text. word_runs (map py_lower text)) texts)"
    by (simp add: all_words_def)
  have all4: "\<forall>w1 i w2 j. (w1, i) \<in> set ?vocab \<and> (w2, j) \<in> set ?vocab \<and> i < j
          \<longrightarrow> count_list ?W w2 \<le> count_list ?W w1"
    using 4 by blast
  have all5: "\<forall>v\<in>fst ` set ?vocab. \<forall>w\<in>set ?W.
          w \<notin> fst ` set ?vocab \<longrightarrow> count_list ?W w \<le> count_list ?W v"
    using 5 by blast
  have low: "\<forall>w\<in>set ?W. \<forall>c\<in>set w. \<not> is_upper_char c"
    using tokenize_lowercase by (auto simp: all_words_def)
  show ?thesis by (intro conjI) (fact 0 low 1 2 3 all4 all5)+
qed


text \<open>The theorem at a reference set with capitals: \<open>B\<close> and \<open>b\<close> are one token, counted
  three times, and it gets index 0.\<close>

theorem build_vocabulary_most_frequent_witness:
  "(''b'', 0) \<in> set (vocabulary (build_vocabulary service_init [''C'', ''b'', ''A b B'']))
   \<and> (''a'', 2) \<in> set (vocabulary (build_vocabulary service_init [''C'', ''b'', ''A b B'']))
   \<and> (0::nat) < 2
   \<and> count_list (all_words [''C'', ''b'', ''A b B'']) ''a''
      \<le> count_list (all_words [''C'', ''b'', ''A b B'']) ''b''
   \<and> all_words [''C'', ''b'', ''A b B''] = [''c'', ''b'', ''a'', ''b'', ''b'']
   \<and> ''c'' \<in> set (all_words [''C'', ''b'', ''A b B'']) \<and> CHR ''c'' \<in> set ''c''
   \<and> \<not> is_upper_char (CHR ''c'')
   \<and> map snd (vocabulary (build_vocabulary service_init [''C'', ''b'', ''A b B''])) = [0, 1, 2]"
proof -
  let ?texts = "[''C'', ''b'', ''A b B'']"
  let ?v = "vocabulary (build_vocabulary service_init ?texts)"
  have v: "?v = [(''b'', 0), (''c'', 1), (''a'', 2)]"
    by (simp add: vocabulary_build vocabulary_mixed_case)
  have m: "(''b'', 0) \<in> set ?v \<and> (''a'', 2) \<in> set ?v \<and> (0::nat) < 2" by (simp add: v)
  have w: "''c'' \<in> set (all_words ?texts) \<and> CHR ''c'' \<in> set ''c''"
    by (simp add: all_words_mixed_case)
  note inst = build_vocabulary_most_frequent [where svc = service_init and texts = ?texts]
  have "count_list (all_words ?texts) ''a'' \<le> count_list (all_words ?texts) ''b''"
    using m inst by blast
  moreover have "\<not> is_upper_char (CHR ''c'')" using w inst by blast
  moreover have "map snd ?v = [0, 1, 2]" by (simp add: v)
  ultimately show ?thesis using m w all_words_mixed_case by blast
qed

section \<open>Claims about the chunker\<close>

lemma chunk_text_example_4_1:
  "chunk_text \<lparr>chunk_size = 4, chunk_overlap = 1\<rparr> ''a.b.c.d.e''
     = Some [''a.b.'', ''.c.'', ''.d.e'', ''e'']"
  by code_simp

text \<open>
  C3, at an input where the code departs from it. The constructor called with its
  default arguments gives the configuration (1000, 200), which has
  \<open>0 \<le> overlap < chunk_size\<close>. The text is \<open>a b\<close> followed by 1000 letters \<open>x\<close>. The first
  window has no full stop and its last space at index 1, so the first chunk ends at 1 and
  the next start is \<open>1 - 200 = -199\<close>; from there the searches find nothing, \<open>-1 > start\<close>
  sets the end to \<open>-1\<close>, and the start is \<open>-201\<close> at every later iteration: the loop
  never returns.
\<close>

theorem chunking_default_diverges:
  "DocumentProcessor_init 1000 200 = Inr default_processor
   \<and> 0 \<le> chunk_overlap default_processor
   \<and> chunk_overlap default_processor < chunk_size default_processor
   \<and> chunk_size default_processor < int (length long_token_text)
   \<and> chunk_text default_processor long_token_text = None"
proof -
  have "0 \<le> chunk_overlap default_processor
      \<and> chunk_overlap default_processor < chunk_size default_processor"
    by (simp add: default_processor_def)
  moreover have "DocumentProcessor_init 1000 200 = Inr default_processor"
    by (simp add: DocumentProcessor_init_def default_processor_def)
  moreover have "chunk_size default_processor < int (length long_token_text)"
    by (simp add: default_processor_def long_token_length)
  ultimately show ?thesis by (simp add: default_chunking_diverges)
qed

end
